theory Spec2Isabelle
  imports Complex_Main
begin

section \<open>Data model\<close>

text \<open>
  A shallow embedding of \<^verbatim>\<open>cpp/src/community/louvain_kernels.cu\<close>.

  \<^item> \<^verbatim>\<open>weight_t\<close> (float or double) is modelled as \<open>real\<close>: every statement below is
    about the arithmetic of the source carried out exactly, without rounding.
  \<^item> \<^verbatim>\<open>vertex_t\<close> and \<^verbatim>\<open>edge_t\<close> (both \<^verbatim>\<open>int32_t\<close>) are modelled as \<open>nat\<close> wherever
    the value is used as an array index; the two arrays that hold the sentinel \<open>-1\<close>
    (\<^verbatim>\<open>local_max_loc\<close>, \<^verbatim>\<open>cluster_inverse\<close>) are \<open>int\<close> lists.
  \<^item> A device array is a list, read with \<open>!\<close> and written with \<open>list_update\<close>. The
    source has no bounds checks, so a read or write out of range has no defined behaviour
    there; the theorems carry the preconditions that keep every index in range.
  \<^item> A kernel launch is taken to give every \<^verbatim>\<open>src < n_vertex\<close> its thread. The launch
    geometry depends on macros that the file includes from elsewhere
    (\<^verbatim>\<open>BLOCK_SIZE_1D\<close>, and in \<^verbatim>\<open>modularity\<close> the caps \<^verbatim>\<open>CUDA_MAX_KERNEL_THREADS\<close> and
    \<^verbatim>\<open>CUDA_MAX_BLOCKS\<close>), so this holds for graphs whose vertex count fits the launch.
\<close>

record GraphCSRView =
  offsets :: "nat list"
  indices :: "nat list"
  edge_data :: "real list"
  number_of_vertices :: nat
  number_of_edges :: nat

section \<open>Vertex sums\<close>

text \<open>The body of the kernel \<^verbatim>\<open>compute_vertex_sums\<close> for one \<^verbatim>\<open>src\<close>.\<close>

definition vertex_sum :: "nat list \<Rightarrow> real list \<Rightarrow> nat \<Rightarrow> real" where
  "vertex_sum offs weights src =
     fold (\<lambda>i sum. sum + weights ! i) [offs ! src ..< offs ! (src + 1)] 0"

text \<open>The kernel: \<^verbatim>\<open>output[src] = sum\<close> for every \<^verbatim>\<open>src < n_vertex\<close>.\<close>

definition compute_vertex_sums_kernel ::
  "nat \<Rightarrow> nat list \<Rightarrow> real list \<Rightarrow> real list \<Rightarrow> real list" where
  "compute_vertex_sums_kernel n_vertex offs weights output =
     fold (\<lambda>src out. out[src := vertex_sum offs weights src]) [0..<n_vertex] output"

definition compute_vertex_sums :: "GraphCSRView \<Rightarrow> real list \<Rightarrow> real list" where
  "compute_vertex_sums graph sums_v =
     compute_vertex_sums_kernel (number_of_vertices graph) (offsets graph) (edge_data graph) sums_v"

section \<open>Modularity\<close>

text \<open>The body of \<^verbatim>\<open>kernel_modularity_no_matrix\<close> for one \<^verbatim>\<open>src\<close>: the value stored in
  \<^verbatim>\<open>Q_arr[src]\<close>.\<close>

definition kernel_modularity_no_matrix ::
  "real \<Rightarrow> nat list \<Rightarrow> nat list \<Rightarrow> real list \<Rightarrow> nat list \<Rightarrow> real list \<Rightarrow> real list
     \<Rightarrow> nat \<Rightarrow> real" where
  "kernel_modularity_no_matrix m2 offs inds weights cluster vertex_sums cluster_sums src =
     (let c_i = cluster ! src;
          ki = vertex_sums ! src;
          Ai = fold (\<lambda>j Ai. if c_i \<noteq> cluster ! (inds ! j) then Ai + weights ! j else Ai)
                 [offs ! src ..< offs ! (src + 1)] 0;
          sum_k = m2 - cluster_sums ! c_i
      in (Ai - ((ki * sum_k) / m2)) / m2)"

text \<open>\<^verbatim>\<open>modularity\<close>: the kernel fills \<^verbatim>\<open>Q_arr[0 .. n)\<close>, \<^verbatim>\<open>thrust::reduce\<close> adds the entries
  to \<open>0\<close> (in an order of its own choice, which exact addition does not see), and the
  negated sum is returned.\<close>

definition modularity ::
  "real \<Rightarrow> GraphCSRView \<Rightarrow> nat list \<Rightarrow> real list \<Rightarrow> real list \<Rightarrow> real" where
  "modularity m2 graph d_cluster d_vertex_sums d_cluster_sums =
     (let Q_arr = map (kernel_modularity_no_matrix m2 (offsets graph) (indices graph)
                         (edge_data graph) d_cluster d_vertex_sums d_cluster_sums)
                    [0..<number_of_vertices graph];
          Q = fold (\<lambda>q acc. acc + q) Q_arr 0
      in - Q)"


section \<open>The local-move sweep\<close>

text \<open>Modelled from the spec: the macro \<^verbatim>\<open>WARP_SIZE\<close> comes from a header that is not part
  of the source file. The kernel's own comment gives \<^verbatim>\<open>tid\<close> the range \<open>0 ~ 31\<close>, and the
  specification speaks of a single warp, so the value is 32.\<close>

definition WARP_SIZE :: nat where
  "WARP_SIZE = 32"

text \<open>The innermost loop of the kernel: over the adjacency slice of \<^verbatim>\<open>src\<close>, the weights
  towards \<^verbatim>\<open>new_cluster\<close> and towards \<^verbatim>\<open>old_cluster\<close>, skipping \<^verbatim>\<open>j == src\<close>. The result
  is the pair \<^verbatim>\<open>(new_cluster_sum, old_cluster_sum)\<close>.\<close>

definition neighbor_cluster_sums ::
  "GraphCSRView \<Rightarrow> nat list \<Rightarrow> nat \<Rightarrow> nat \<Rightarrow> nat \<Rightarrow> real \<times> real" where
  "neighbor_cluster_sums graph cluster src new_cluster old_cluster =
     fold (\<lambda>i (new_cluster_sum, old_cluster_sum).
             let j = indices graph ! i in
             if j \<noteq> src then
               (let cluster_j = cluster ! j in
                if cluster_j = new_cluster then (new_cluster_sum + edge_data graph ! i, old_cluster_sum)
                else if cluster_j = old_cluster
                  then (new_cluster_sum, old_cluster_sum + edge_data graph ! i)
                  else (new_cluster_sum, old_cluster_sum))
             else (new_cluster_sum, old_cluster_sum))
          [offsets graph ! src ..< offsets graph ! (src + 1)] (0, 0)"

text \<open>\<^verbatim>\<open>delta_mod\<close> as the kernel computes it for the edge at offset \<^verbatim>\<open>loc\<close> of \<^verbatim>\<open>src\<close>.\<close>

definition delta_mod ::
  "real \<Rightarrow> GraphCSRView \<Rightarrow> real list \<Rightarrow> real list \<Rightarrow> nat list \<Rightarrow> nat \<Rightarrow> nat \<Rightarrow> real" where
  "delta_mod m2 graph vertex_weights cluster_weights cluster src loc =
     (let old_cluster = cluster ! src;
          degc_totw = vertex_weights ! src / m2;
          dst = indices graph ! loc;
          new_cluster = cluster ! dst;
          (new_cluster_sum, old_cluster_sum) =
             neighbor_cluster_sums graph cluster src new_cluster old_cluster
      in new_cluster_sum - degc_totw * cluster_weights ! new_cluster -
           (old_cluster_sum - (degc_totw * (cluster_weights ! old_cluster - vertex_weights ! src))))"

text \<open>One turn of a lane's loop over \<^verbatim>\<open>loc\<close>: the pair is
  \<^verbatim>\<open>(local_max[tid], local_max_loc[tid])\<close>.\<close>

definition lane_step ::
  "real \<Rightarrow> GraphCSRView \<Rightarrow> real list \<Rightarrow> real list \<Rightarrow> nat list \<Rightarrow> nat \<Rightarrow> nat
     \<Rightarrow> real \<times> int \<Rightarrow> real \<times> int" where
  "lane_step m2 graph vertex_weights cluster_weights cluster src loc lm =
     (let old_cluster = cluster ! src;
          dst = indices graph ! loc;
          new_cluster = cluster ! dst
      in if old_cluster \<noteq> new_cluster then
           (let dm = delta_mod m2 graph vertex_weights cluster_weights cluster src loc
            in if dm > fst lm then (dm, int loc) else lm)
         else (if fst lm < 0 then (0, int loc) else lm))"

text \<open>The loop \<^verbatim>\<open>for (loc = start_idx + tid; loc < end_idx; loc += WARP_SIZE)\<close> of one lane.\<close>

function lane_scan ::
  "(nat \<Rightarrow> real \<times> int \<Rightarrow> real \<times> int) \<Rightarrow> nat \<Rightarrow> nat \<Rightarrow> real \<times> int \<Rightarrow> real \<times> int" where
  "lane_scan step loc end_idx lm =
     (if loc < end_idx then lane_scan step (loc + WARP_SIZE) end_idx (step loc lm) else lm)"
  by pat_completeness auto
termination
  by (relation "measure (\<lambda>(step, loc, end_idx, lm). end_idx - loc)") (auto simp: WARP_SIZE_def)

declare lane_scan.simps [simp del]

text \<open>The shared arrays \<^verbatim>\<open>local_max\<close> and \<^verbatim>\<open>local_max_loc\<close> after every lane has run its
  loop from the initial \<open>(-1, -1)\<close>.\<close>

definition warp_local_max ::
  "real \<Rightarrow> GraphCSRView \<Rightarrow> real list \<Rightarrow> real list \<Rightarrow> nat list \<Rightarrow> nat \<Rightarrow> (real \<times> int) list" where
  "warp_local_max m2 graph vertex_weights cluster_weights cluster src =
     map (\<lambda>tid. lane_scan (lane_step m2 graph vertex_weights cluster_weights cluster src)
                  (offsets graph ! src + tid) (offsets graph ! (src + 1)) (- 1, - 1))
       [0..<WARP_SIZE]"

text \<open>The reduction \<^verbatim>\<open>while ((tid < stride) && (stride > 0))\<close>, with the lanes of the warp in
  lockstep: in the round of a given stride every lane \<^verbatim>\<open>tid < stride\<close> reads slot
  \<^verbatim>\<open>tid + stride\<close>, which no lane writes in that round, and then all lanes halve the stride.
  The strides of the source are \<open>16, 8, 4, 2, 1\<close>, for which \<open>tid + stride < WARP_SIZE\<close>
  holds of every lane \<open>tid < stride\<close>; the bound is written out so that no other stride
  reads outside the arrays.\<close>

definition reduce_round :: "nat \<Rightarrow> (real \<times> int) list \<Rightarrow> (real \<times> int) list" where
  "reduce_round stride lm =
     map (\<lambda>tid. if tid < stride \<and> tid + stride < WARP_SIZE \<and> fst (lm ! (tid + stride)) > fst (lm ! tid)
                then lm ! (tid + stride) else lm ! tid)
       [0..<WARP_SIZE]"

function warp_reduce :: "nat \<Rightarrow> (real \<times> int) list \<Rightarrow> (real \<times> int) list" where
  "warp_reduce stride lm =
     (if stride > 0 then warp_reduce (stride div 2) (reduce_round stride lm) else lm)"
  by pat_completeness auto
termination
  by (relation "measure (\<lambda>(stride, lm). stride)") auto

declare warp_reduce.simps [simp del]

text \<open>The body of the kernel's loop over \<^verbatim>\<open>src\<close>: the search for the best edge and, when
  \<^verbatim>\<open>local_max[0] > 0\<close>, the three assignments of lane 0. The state is the pair
  \<^verbatim>\<open>(cluster_weights, cluster)\<close>.\<close>

definition update_assignment ::
  "real \<Rightarrow> GraphCSRView \<Rightarrow> real list \<Rightarrow> nat \<Rightarrow> real list \<times> nat list \<Rightarrow> real list \<times> nat list" where
  "update_assignment m2 graph vertex_weights src st =
     (let cluster_weights = fst st;
          cluster = snd st;
          lm = warp_reduce (WARP_SIZE div 2)
                 (warp_local_max m2 graph vertex_weights cluster_weights cluster src);
          local_max0 = fst (lm ! 0);
          local_max_loc0 = snd (lm ! 0)
      in if local_max0 > 0 then
           (let cw1 = cluster_weights[cluster ! src :=
                        cluster_weights ! (cluster ! src) - vertex_weights ! src];
                cl1 = cluster[src := cluster ! (indices graph ! nat local_max_loc0)];
                cw2 = cw1[cl1 ! src := cw1 ! (cl1 ! src) + vertex_weights ! src]
            in (cw2, cl1))
         else (cluster_weights, cluster))"

text \<open>The kernel \<^verbatim>\<open>update_each_assignment_by_delta_modularity\<close>: block 0 runs
  \<^verbatim>\<open>for (src = 0; src < n_vertex; ++src)\<close>, every other block returns at once. The first
  \<open>j\<close> turns of the loop are \<open>sweep_prefix\<close>; the kernel is the case \<open>j = n_vertex\<close>.\<close>

definition sweep_prefix ::
  "real \<Rightarrow> GraphCSRView \<Rightarrow> real list \<Rightarrow> nat \<Rightarrow> real list \<times> nat list \<Rightarrow> real list \<times> nat list" where
  "sweep_prefix m2 graph vertex_weights j st =
     fold (update_assignment m2 graph vertex_weights) [0..<j] st"

definition update_each_assignment_by_delta_modularity ::
  "real \<Rightarrow> GraphCSRView \<Rightarrow> real list \<Rightarrow> real list \<times> nat list \<Rightarrow> real list \<times> nat list" where
  "update_each_assignment_by_delta_modularity m2 graph vertex_weights st =
     sweep_prefix m2 graph vertex_weights (number_of_vertices graph) st"

text \<open>The quantity \<open>S\<^sub>i\<^sub>n(c)\<close> in the words of the specification: the sum of
  \<open>weight(v, w)\<close> over the neighbours \<open>w \<noteq> v\<close> of \<open>v\<close> with \<open>C[w] = c\<close>.\<close>

definition S_in :: "GraphCSRView \<Rightarrow> nat list \<Rightarrow> nat \<Rightarrow> nat \<Rightarrow> real" where
  "S_in graph C v c =
     sum_list (map (\<lambda>e. edge_data graph ! e)
       (filter (\<lambda>e. indices graph ! e \<noteq> v \<and> C ! (indices graph ! e) = c)
          [offsets graph ! v ..< offsets graph ! (v + 1)]))"

section \<open>The inner loop\<close>

text \<open>The \<^verbatim>\<open>while (new_Q > (cur_Q + 0.0001))\<close> loop of
  \<^verbatim>\<open>update_clustering_by_delta_modularity\<close>; a run that never leaves the loop is \<open>None\<close>.\<close>

partial_function (option) delta_modularity_loop ::
  "real \<Rightarrow> GraphCSRView \<Rightarrow> real list \<Rightarrow> real \<Rightarrow> real \<Rightarrow> real list \<times> nat list
     \<Rightarrow> (real \<times> real list \<times> nat list) option" where
  "delta_modularity_loop m2 graph vertex_weights new_Q cur_Q st =
     (if new_Q > cur_Q + 1 / 10000 then
        (let cur_Q' = new_Q;
             st' = update_each_assignment_by_delta_modularity m2 graph vertex_weights st;
             new_Q' = modularity m2 graph (snd st') vertex_weights (fst st')
         in delta_modularity_loop m2 graph vertex_weights new_Q' cur_Q' st')
      else Some (new_Q, st))"

declare delta_modularity_loop.simps [code]

text \<open>The value of \<^verbatim>\<open>new_Q\<close> after \<open>i\<close> turns of the loop that starts in state \<open>st\<close>: the
  modularity of the state that \<open>i\<close> sweeps lead to.\<close>

definition reported_Q ::
  "real \<Rightarrow> GraphCSRView \<Rightarrow> real list \<Rightarrow> real list \<times> nat list \<Rightarrow> nat \<Rightarrow> real" where
  "reported_Q m2 graph vertex_weights st i =
     (let st' = (update_each_assignment_by_delta_modularity m2 graph vertex_weights ^^ i) st
      in modularity m2 graph (snd st') vertex_weights (fst st'))"

definition update_clustering_by_delta_modularity ::
  "real \<Rightarrow> GraphCSRView \<Rightarrow> real list \<Rightarrow> real list \<Rightarrow> nat list
     \<Rightarrow> (real \<times> real list \<times> nat list) option" where
  "update_clustering_by_delta_modularity m2 graph vertex_weights cluster_weights cluster =
     (let new_Q = modularity m2 graph cluster vertex_weights cluster_weights;
          cur_Q = new_Q - 1
      in delta_modularity_loop m2 graph vertex_weights new_Q cur_Q (cluster_weights, cluster))"

section \<open>Renumbering the clusters\<close>

text \<open>An \<^verbatim>\<open>rmm::device_vector\<close> that the source resizes: the device memory behind
  \<^verbatim>\<open>data().get()\<close> and the value of \<^verbatim>\<open>size()\<close>. Shrinking with \<^verbatim>\<open>resize\<close> lowers the size
  and leaves the memory as it is; \<^verbatim>\<open>begin()\<close> to \<^verbatim>\<open>end()\<close> spans the first \<open>vsize\<close>
  entries.\<close>

record 'a device_vector =
  storage :: "'a list"
  vsize :: nat

text \<open>\<^verbatim>\<open>renumber_clusters\<close>. The scratch vector \<^verbatim>\<open>temp_array\<close> has the size of \<^verbatim>\<open>cluster\<close> at
  every call (both start with one entry per vertex and both are resized to
  \<^verbatim>\<open>new_num_clusters\<close> here), so it is a local value; of \<^verbatim>\<open>cluster_inverse\<close>, which is
  filled anew at every call, only the size is a parameter. A value read from
  \<^verbatim>\<open>cluster_inverse\<close> becomes a cluster id through \<open>nat\<close>; under the precondition that the
  cluster ids index \<^verbatim>\<open>cluster_inverse\<close> the sentinel \<open>-1\<close> is never read (lemma
  \<open>renumber_rank\<close>). The result is \<^verbatim>\<open>new_num_clusters\<close>, the vector \<^verbatim>\<open>cluster\<close> and the
  array \<^verbatim>\<open>cluster_vec\<close>.\<close>

definition renumber_clusters ::
  "nat \<Rightarrow> nat device_vector \<Rightarrow> nat \<Rightarrow> nat list \<Rightarrow> nat \<times> nat device_vector \<times> nat list" where
  "renumber_clusters graph_num_vertices cluster cluster_inverse_size cluster_vec =
     (let temp_array = remdups_adj (sort (take (vsize cluster) (storage cluster)));
          old_num_clusters = vsize cluster;
          new_num_clusters = length temp_array;
          cluster_inverse =
            fold (\<lambda>i inv. inv[temp_array ! i := int i]) [0..<new_num_clusters]
              (replicate cluster_inverse_size (- 1));
          d_cluster =
            fold (\<lambda>i d. d[i := nat (cluster_inverse ! (d ! i))]) [0..<old_num_clusters]
              (storage cluster);
          cluster_vec' =
            fold (\<lambda>i cv. cv[i := d_cluster ! (cv ! i)]) [0..<graph_num_vertices] cluster_vec
      in (new_num_clusters, \<lparr>storage = d_cluster, vsize = new_num_clusters\<rparr>, cluster_vec'))"

text \<open>The compactor called twice in a row on the same vectors.\<close>

definition renumber_clusters_twice ::
  "nat \<Rightarrow> nat device_vector \<Rightarrow> nat \<Rightarrow> nat list \<Rightarrow> nat \<times> nat device_vector \<times> nat list" where
  "renumber_clusters_twice graph_num_vertices cluster cluster_inverse_size cluster_vec =
     (case renumber_clusters graph_num_vertices cluster cluster_inverse_size cluster_vec of
        (k, cluster', cluster_vec') \<Rightarrow>
          renumber_clusters graph_num_vertices cluster' cluster_inverse_size cluster_vec')"

section \<open>The graph of super-vertices\<close>

text \<open>Modelled from the spec: \<^verbatim>\<open>GraphCSRView::get_source_indices\<close> is declared in
  \<^verbatim>\<open>graph.hpp\<close>, which is not part of the source file. The specification has it expand the
  row pointers into a per-edge source array: every edge offset of the adjacency slice of
  \<open>v\<close> receives \<open>v\<close>.\<close>

definition get_source_indices :: "GraphCSRView \<Rightarrow> nat list \<Rightarrow> nat list" where
  "get_source_indices graph src_indices =
     fold (\<lambda>v buf. fold (\<lambda>e b. b[e := v]) [offsets graph ! v ..< offsets graph ! (v + 1)] buf)
       [0..<number_of_vertices graph] src_indices"

text \<open>Modelled from the spec: \<^verbatim>\<open>detail::fill_offset\<close> is defined in
  \<^verbatim>\<open>utilities/graph_utils.cuh\<close>, which is not part of the source file. The specification has
  it rebuild the offset array from the sorted source column: entry \<open>v\<close>, for \<open>v\<close> from 0 to
  the vertex count, is the number of edges whose source is below \<open>v\<close>.\<close>

definition fill_offset :: "nat list \<Rightarrow> nat list \<Rightarrow> nat \<Rightarrow> nat \<Rightarrow> nat list" where
  "fill_offset source offs n_vertices n_edges =
     fold (\<lambda>v out. out[v := length (filter (\<lambda>s. s < v) (take n_edges source))])
       [0..<n_vertices + 1] offs"

text \<open>\<^verbatim>\<open>thrust::reduce_by_key\<close> with \<^verbatim>\<open>equal_to\<close> and \<^verbatim>\<open>plus\<close>: every run of consecutive equal
  keys becomes one entry, the first key of the run with the sum of the run's values.\<close>

fun reduce_by_key :: "('k \<times> real) list \<Rightarrow> ('k \<times> real) list" where
  "reduce_by_key [] = []"
| "reduce_by_key [kv] = [kv]"
| "reduce_by_key ((k1, v1) # (k2, v2) # rest) =
     (if k1 = k2 then reduce_by_key ((k1, v1 + v2) # rest)
      else (k1, v1) # reduce_by_key ((k2, v2) # rest))"

text \<open>An output range that starts at the beginning of a buffer: the first entries of the
  buffer are replaced, the rest stays.\<close>

definition overwrite_prefix :: "'a list \<Rightarrow> 'a list \<Rightarrow> 'a list" where
  "overwrite_prefix new buf = new @ drop (length new) buf"

text \<open>\<^verbatim>\<open>generate_superverticies_graph\<close>. The edges are triples (source, destination, weight);
  the two \<^verbatim>\<open>thrust::stable_sort_by_key\<close> calls sort them by destination and then, stably, by
  source. \<^verbatim>\<open>reduce_by_key\<close> writes its output over \<^verbatim>\<open>d_old_src\<close>, the graph's \<^verbatim>\<open>indices\<close>
  and the graph's \<^verbatim>\<open>edge_data\<close>.\<close>

definition generate_superverticies_graph ::
  "GraphCSRView \<Rightarrow> nat \<Rightarrow> nat list \<Rightarrow> GraphCSRView" where
  "generate_superverticies_graph current_graph new_number_of_vertices d_clusters =
     (let m = number_of_edges current_graph;
          d_old_src = get_source_indices current_graph (replicate m 0);
          d_old_dst = indices current_graph;
          d_old_weight = edge_data current_graph;
          renumbered = map (\<lambda>e. (d_clusters ! (d_old_src ! e), d_clusters ! (d_old_dst ! e),
                                  d_old_weight ! e)) [0..<m];
          by_dst = sort_key (\<lambda>(s, d, w). d) renumbered;
          by_src = sort_key (\<lambda>(s, d, w). s) by_dst;
          reduced = reduce_by_key (map (\<lambda>(s, d, w). ((s, d), w)) by_src);
          m' = length reduced;
          d_old_src' = overwrite_prefix (map (\<lambda>((s, d), w). s) reduced) d_old_src
      in current_graph
           \<lparr>offsets := fill_offset d_old_src' (offsets current_graph) new_number_of_vertices m',
            indices := overwrite_prefix (map (\<lambda>((s, d), w). d) reduced) d_old_dst,
            edge_data := overwrite_prefix (map (\<lambda>((s, d), w). w) reduced) d_old_weight,
            number_of_vertices := new_number_of_vertices,
            number_of_edges := m'\<rparr>)"

section \<open>The driver\<close>

text \<open>What \<^verbatim>\<open>louvain\<close> leaves behind its three out-parameters.\<close>

record louvain_result =
  final_modularity :: real
  num_level :: int
  cluster_vec :: "nat list"

text \<open>The variables of \<^verbatim>\<open>louvain\<close> that live across the turns of \<^verbatim>\<open>while (true)\<close>.
  \<^verbatim>\<open>cluster_weights_v\<close> is overwritten from \<^verbatim>\<open>vertex_weights_v\<close> at the top of every turn, so
  it is not part of the state (its \<^verbatim>\<open>resize\<close> lowers its size and leaves its memory, into
  which that copy writes, as it is). \<open>labels\<close> is the caller's array \<^verbatim>\<open>cluster_vec\<close> and
  \<open>level_out\<close> is the integer behind \<^verbatim>\<open>num_level\<close>.\<close>

record louvain_state =
  current_graph :: GraphCSRView
  vertex_weights_v :: "real list"
  cluster_v :: "nat device_vector"
  labels :: "nat list"
  best_modularity :: real
  level_out :: int

text \<open>One turn of \<^verbatim>\<open>while (true)\<close>: \<open>None\<close> when the inner loop does not return, \<open>Inl\<close> of the
  state at the \<^verbatim>\<open>break\<close>, \<open>Inr\<close> of the state at the end of the body. \<open>n0\<close> is
  \<^verbatim>\<open>graph.number_of_vertices\<close> of the input graph.\<close>

definition louvain_level ::
  "real \<Rightarrow> nat \<Rightarrow> louvain_state \<Rightarrow> (louvain_state + louvain_state) option" where
  "louvain_level m2 n0 st =
     (let g = current_graph st;
          vertex_weights = compute_vertex_sums g (vertex_weights_v st);
          cluster_weights = vertex_weights
      in case update_clustering_by_delta_modularity m2 g vertex_weights cluster_weights
                (storage (cluster_v st)) of
           None \<Rightarrow> None
         | Some (new_Q, cluster_weights', d_cluster) \<Rightarrow>
             (let count = length (filter (\<lambda>v. d_cluster ! v = v) [0..<number_of_vertices g])
              in if count = number_of_vertices g
                 then Some (Inl (st\<lparr>vertex_weights_v := vertex_weights,
                                     cluster_v := (cluster_v st)\<lparr>storage := d_cluster\<rparr>\<rparr>))
                 else
                   (let (num_clusters, cluster', cluster_vec') =
                          renumber_clusters n0 ((cluster_v st)\<lparr>storage := d_cluster\<rparr>) n0
                            (labels st);
                        g' = generate_superverticies_graph g num_clusters (storage cluster');
                        cluster'' = cluster'\<lparr>storage :=
                          overwrite_prefix [0..<vsize cluster'] (storage cluster')\<rparr>
                    in Some (Inr \<lparr>current_graph = g', vertex_weights_v = vertex_weights,
                                  cluster_v = cluster'', labels = cluster_vec',
                                  best_modularity = new_Q, level_out = level_out st\<rparr>))))"

text \<open>The loop \<^verbatim>\<open>while (true)\<close>. The counter \<open>iterations\<close> is not a variable of the source:
  it counts the turns of the loop, the one that ends in \<^verbatim>\<open>break\<close> included, and is
  returned beside the final state.\<close>

partial_function (option) louvain_loop ::
  "real \<Rightarrow> nat \<Rightarrow> nat \<Rightarrow> louvain_state \<Rightarrow> (louvain_state \<times> nat) option" where
  "louvain_loop m2 n0 iterations st =
     (case louvain_level m2 n0 st of
        None \<Rightarrow> None
      | Some (Inl st') \<Rightarrow> Some (st', iterations + 1)
      | Some (Inr st') \<Rightarrow> louvain_loop m2 n0 (iterations + 1) st')"

declare louvain_loop.simps [code]

text \<open>The state before the loop: \<^verbatim>\<open>*num_level = 0\<close>, the copies of the three arrays of the
  input graph, zero-initialised weight vectors, \<^verbatim>\<open>best_modularity = -1\<close>, and the identity
  in \<^verbatim>\<open>cluster_v\<close> and \<^verbatim>\<open>cluster_vec\<close>.\<close>

definition louvain_init :: "GraphCSRView \<Rightarrow> louvain_state" where
  "louvain_init graph =
     \<lparr>current_graph =
        \<lparr>offsets = take (number_of_vertices graph + 1) (offsets graph),
         indices = take (number_of_edges graph) (indices graph),
         edge_data = take (number_of_edges graph) (edge_data graph),
         number_of_vertices = number_of_vertices graph,
         number_of_edges = number_of_edges graph\<rparr>,
      vertex_weights_v = replicate (number_of_vertices graph) 0,
      cluster_v = \<lparr>storage = [0..<number_of_vertices graph],
                   vsize = number_of_vertices graph\<rparr>,
      labels = [0..<number_of_vertices graph],
      best_modularity = - 1,
      level_out = 0\<rparr>"

text \<open>\<^verbatim>\<open>louvain\<close>, with the number of turns of its loop beside the result. The parameter
  \<^verbatim>\<open>max_iter\<close> is kept although the source never reads it.\<close>

definition louvain_run :: "GraphCSRView \<Rightarrow> int \<Rightarrow> (louvain_result \<times> nat) option" where
  "louvain_run graph max_iter =
     (let m2 = fold (\<lambda>w acc. acc + w) (take (number_of_edges graph) (edge_data graph)) 0
      in case louvain_loop m2 (number_of_vertices graph) 0 (louvain_init graph) of
           None \<Rightarrow> None
         | Some (st, iterations) \<Rightarrow>
             Some (\<lparr>final_modularity = best_modularity st, num_level = level_out st,
                    cluster_vec = labels st\<rparr>, iterations))"

definition louvain :: "GraphCSRView \<Rightarrow> int \<Rightarrow> louvain_result option" where
  "louvain graph max_iter = map_option fst (louvain_run graph max_iter)"

section \<open>Well-formed inputs\<close>

text \<open>A graph in CSR form, as the data model of the specification has it: \<open>n + 1\<close> offsets
  that start at 0, do not decrease and end at \<open>m\<close>; \<open>m\<close> neighbour indices below \<open>n\<close>; \<open>m\<close>
  weights. The arrays may be longer than that (the driver contracts the graph in place).\<close>

definition valid_graph :: "GraphCSRView \<Rightarrow> bool" where
  "valid_graph g \<longleftrightarrow>
     number_of_vertices g < length (offsets g) \<and>
     offsets g ! 0 = 0 \<and>
     offsets g ! number_of_vertices g = number_of_edges g \<and>
     list_all (\<lambda>v. offsets g ! v \<le> offsets g ! (v + 1)) [0..<number_of_vertices g] \<and>
     number_of_edges g \<le> length (indices g) \<and>
     number_of_edges g \<le> length (edge_data g) \<and>
     list_all (\<lambda>e. indices g ! e < number_of_vertices g) [0..<number_of_edges g]"

text \<open>A cluster array for \<open>n\<close> vertices whose entries lie below \<open>k\<close>.\<close>

definition clusters_below :: "nat \<Rightarrow> nat \<Rightarrow> nat list \<Rightarrow> bool" where
  "clusters_below n k C \<longleftrightarrow> n \<le> length C \<and> list_all (\<lambda>v. C ! v < k) [0..<n]"

text \<open>A state \<^verbatim>\<open>(cluster_weights, cluster)\<close> of the sweep over \<open>n\<close> vertices: both arrays have
  an entry for every vertex and every cluster id is a vertex id.\<close>

definition sweep_state_ok :: "nat \<Rightarrow> real list \<times> nat list \<Rightarrow> bool" where
  "sweep_state_ok n st \<longleftrightarrow> n \<le> length (fst st) \<and> clusters_below n n (snd st)"

text \<open>The total weight of the edges from \<open>u\<close> to \<open>v\<close> (the adjacency slice of \<open>u\<close> may name
  \<open>v\<close> more than once), and the symmetry that the specification assumes of an undirected
  input: the weight from \<open>u\<close> to \<open>v\<close> is the weight from \<open>v\<close> to \<open>u\<close>.\<close>

definition edge_weight :: "GraphCSRView \<Rightarrow> nat \<Rightarrow> nat \<Rightarrow> real" where
  "edge_weight g u v =
     sum_list (map (\<lambda>e. edge_data g ! e)
       (filter (\<lambda>e. indices g ! e = v) [offsets g ! u ..< offsets g ! (u + 1)]))"

definition symmetric_graph :: "GraphCSRView \<Rightarrow> bool" where
  "symmetric_graph g \<longleftrightarrow>
     list_all (\<lambda>u. list_all (\<lambda>v. edge_weight g u v = edge_weight g v u)
                 [0..<number_of_vertices g]) [0..<number_of_vertices g]"

text \<open>The cluster weights agree with the clustering: \<open>\<Sigma>\<^sub>c\<close> is the sum of \<open>k\<^sub>v\<close> over the
  vertices \<open>v\<close> with \<open>C[v] = c\<close>.\<close>

definition cluster_sums_ok :: "nat \<Rightarrow> real list \<Rightarrow> real list \<times> nat list \<Rightarrow> bool" where
  "cluster_sums_ok n k st \<longleftrightarrow>
     list_all (\<lambda>c. fst st ! c = sum_list (map (\<lambda>v. k ! v) (filter (\<lambda>v. snd st ! v = c) [0..<n])))
       [0..<n]"

section \<open>Example graphs\<close>

text \<open>Two vertices joined by one edge of weight 1.\<close>

definition two_vertex_graph :: GraphCSRView where
  "two_vertex_graph =
     \<lparr>offsets = [0, 1, 2], indices = [1, 0], edge_data = [1, 1],
      number_of_vertices = 2, number_of_edges = 2\<rparr>"

text \<open>One vertex with a self-loop of weight 1.\<close>

definition one_vertex_graph :: GraphCSRView where
  "one_vertex_graph =
     \<lparr>offsets = [0, 1], indices = [0], edge_data = [1],
      number_of_vertices = 1, number_of_edges = 1\<rparr>"

text \<open>A star: vertex 0 is joined to 1, 2 and 3 by edges of weight 1, 2 and 2.\<close>

definition star_graph :: GraphCSRView where
  "star_graph =
     \<lparr>offsets = [0, 3, 4, 5, 6], indices = [1, 2, 3, 0, 0, 0], edge_data = [1, 2, 2, 1, 2, 2],
      number_of_vertices = 4, number_of_edges = 6\<rparr>"

text \<open>Two disjoint triangles with unit weights.\<close>

definition two_triangles :: GraphCSRView where
  "two_triangles =
     \<lparr>offsets = [0, 2, 4, 6, 8, 10, 12], indices = [1, 2, 0, 2, 0, 1, 4, 5, 3, 5, 3, 4],
      edge_data = [1, 1, 1, 1, 1, 1, 1, 1, 1, 1, 1, 1],
      number_of_vertices = 6, number_of_edges = 12\<rparr>"

text \<open>The vertex sums of the star graph and the identity clustering of its four
  vertices.\<close>

definition star_vertex_weights :: "real list" where
  "star_vertex_weights = [5, 1, 2, 2]"

definition star_identity :: "nat list" where
  "star_identity = [0, 1, 2, 3]"

section \<open>Predicates used in the proofs\<close>

text \<open>What a lane knows after it has looked at the edge offsets in \<open>V\<close>: its maximum bounds
  the gain of every candidate in \<open>V\<close>, and it is one of the two initial values \<open>-1\<close> and \<open>0\<close>
  or the gain of a candidate in \<open>V\<close> whose offset the lane holds.\<close>

definition lane_inv ::
  "(nat \<Rightarrow> bool) \<Rightarrow> (nat \<Rightarrow> real) \<Rightarrow> nat set \<Rightarrow> real \<times> int \<Rightarrow> bool" where
  "lane_inv cand dm V lm =
     ((\<forall>l\<in>V. cand l \<longrightarrow> dm l \<le> fst lm) \<and>
      (fst lm = - 1 \<or> fst lm = 0 \<or> (\<exists>l\<in>V. cand l \<and> dm l = fst lm \<and> snd lm = int l)))"

text \<open>The slots below \<open>k\<close> of \<open>lm\<close> bound every slot of \<open>lm0\<close>, and every slot of \<open>lm\<close> is
  a slot of \<open>lm0\<close>.\<close>

definition dominates :: "nat \<Rightarrow> (real \<times> int) list \<Rightarrow> (real \<times> int) list \<Rightarrow> bool" where
  "dominates k lm0 lm =
     (length lm = WARP_SIZE \<and>
      (\<forall>t<WARP_SIZE. \<exists>t'<k. fst (lm0 ! t) \<le> fst (lm ! t')) \<and>
      (\<forall>t'<WARP_SIZE. \<exists>t<WARP_SIZE. lm ! t' = lm0 ! t))"

section \<open>Basic facts about folds\<close>






section \<open>Claims about the modularity evaluator\<close>



section \<open>The gain computed by the sweep\<close>

lemma neighbor_cluster_sums_eq:
  assumes "new_cluster \<noteq> old_cluster"
  shows "neighbor_cluster_sums g C src new_cluster old_cluster
           = (S_in g C src new_cluster, S_in g C src old_cluster)"
proof -
  have "fold (\<lambda>i (new_cluster_sum, old_cluster_sum).
             let j = indices g ! i in
             if j \<noteq> src then
               (let cluster_j = C ! j in
                if cluster_j = new_cluster then (new_cluster_sum + edge_data g ! i, old_cluster_sum)
                else if cluster_j = old_cluster
                  then (new_cluster_sum, old_cluster_sum + edge_data g ! i)
                  else (new_cluster_sum, old_cluster_sum))
             else (new_cluster_sum, old_cluster_sum)) xs (a, b)
        = (a + sum_list (map (\<lambda>e. edge_data g ! e)
                 (filter (\<lambda>e. indices g ! e \<noteq> src \<and> C ! (indices g ! e) = new_cluster) xs)),
           b + sum_list (map (\<lambda>e. edge_data g ! e)
                 (filter (\<lambda>e. indices g ! e \<noteq> src \<and> C ! (indices g ! e) = old_cluster) xs)))"
    for xs a b
    using assms by (induction xs arbitrary: a b) (simp_all add: Let_def)
  then show ?thesis
    by (simp add: neighbor_cluster_sums_def S_in_def)
qed

lemma delta_mod_formula:
  assumes "C ! (indices g ! loc) \<noteq> C ! src"
  shows "delta_mod m2 g k S C src loc
     = S_in g C src (C ! (indices g ! loc)) - (k ! src / m2) * S ! (C ! (indices g ! loc))
       - (S_in g C src (C ! src) - (k ! src / m2) * (S ! (C ! src) - k ! src))"
  using assms by (simp add: delta_mod_def Let_def neighbor_cluster_sums_eq)

section \<open>The search of the warp\<close>

lemma lane_inv_init: "lane_inv cand dm {} (- 1, - 1)"
  by (simp add: lane_inv_def)

lemma lane_step_inv:
  assumes "lane_inv (\<lambda>l. C ! src \<noteq> C ! (indices g ! l)) (delta_mod m2 g k S C src) V lm"
  shows "lane_inv (\<lambda>l. C ! src \<noteq> C ! (indices g ! l)) (delta_mod m2 g k S C src)
           (insert loc V) (lane_step m2 g k S C src loc lm)"
  using assms unfolding lane_inv_def lane_step_def Let_def
  by (auto simp: not_less intro: order_trans less_imp_le)

lemma visited_shift:
  assumes "loc + WARP_SIZE \<le> l"
  shows "(l - loc) mod WARP_SIZE = (l - (loc + WARP_SIZE)) mod WARP_SIZE"
proof -
  have "l - loc = (l - (loc + WARP_SIZE)) + WARP_SIZE" using assms by simp
  then have "(l - loc) mod WARP_SIZE = ((l - (loc + WARP_SIZE)) + WARP_SIZE) mod WARP_SIZE"
    by simp
  then show ?thesis by (simp only: mod_add_self2)
qed

lemma visited_unfold:
  assumes "loc < end_idx"
  shows "{l. loc \<le> l \<and> l < end_idx \<and> (l - loc) mod WARP_SIZE = 0}
       = insert loc {l. loc + WARP_SIZE \<le> l \<and> l < end_idx \<and> (l - (loc + WARP_SIZE)) mod WARP_SIZE = 0}"
    (is "?A = insert loc ?B")
proof (rule set_eqI)
  fix l
  show "l \<in> ?A \<longleftrightarrow> l \<in> insert loc ?B"
  proof (cases "l = loc")
    case True
    then show ?thesis using assms by simp
  next
    case False
    show ?thesis
    proof (cases "loc + WARP_SIZE \<le> l")
      case True
      then have "loc \<le> l" by simp
      with True False visited_shift[OF True] show ?thesis by simp
    next
      case F2: False
      have "l \<notin> ?A"
      proof
        assume "l \<in> ?A"
        then have a: "loc \<le> l" "(l - loc) mod WARP_SIZE = 0" by simp_all
        from F2 a(1) have "l - loc < WARP_SIZE" by simp
        then have "(l - loc) mod WARP_SIZE = l - loc" by (rule mod_less)
        with a False show False by simp
      qed
      moreover have "l \<notin> insert loc ?B" using False F2 by simp
      ultimately show ?thesis by blast
    qed
  qed
qed

lemma lane_scan_inv:
  assumes "\<And>l lm V. I V lm \<Longrightarrow> I (insert l V) (step l lm)"
    and "I V lm"
  shows "I (V \<union> {l. loc \<le> l \<and> l < end_idx \<and> (l - loc) mod WARP_SIZE = 0})
           (lane_scan step loc end_idx lm)"
  using assms
proof (induction step loc end_idx lm arbitrary: V rule: lane_scan.induct)
  case (1 step' loc end_idx lm)
  show ?case
  proof (cases "loc < end_idx")
    case True
    have "I (insert loc V) (step' loc lm)" using 1(2,3) by blast
    then have "I (insert loc V \<union> {l. loc + WARP_SIZE \<le> l \<and> l < end_idx \<and> (l - (loc + WARP_SIZE)) mod WARP_SIZE = 0})
                (lane_scan step' (loc + WARP_SIZE) end_idx (step' loc lm))"
      using 1(1)[OF True 1(2)] by blast
    moreover have "insert loc V \<union> {l. loc + WARP_SIZE \<le> l \<and> l < end_idx \<and> (l - (loc + WARP_SIZE)) mod WARP_SIZE = 0}
        = V \<union> {l. loc \<le> l \<and> l < end_idx \<and> (l - loc) mod WARP_SIZE = 0}"
      unfolding visited_unfold[OF True] by blast
    ultimately show ?thesis
      using True by (subst lane_scan.simps) simp
  next
    case False
    then have e: "{l. loc \<le> l \<and> l < end_idx \<and> (l - loc) mod WARP_SIZE = 0} = {}" by auto
    show ?thesis unfolding e using False 1(3) by (simp add: lane_scan.simps)
  qed
qed

lemma reduce_round_nth:
  assumes "t < WARP_SIZE"
  shows "reduce_round s lm ! t =
     (if t < s \<and> t + s < WARP_SIZE \<and> fst (lm ! (t + s)) > fst (lm ! t) then lm ! (t + s) else lm ! t)"
  using assms by (simp add: reduce_round_def)

lemma length_reduce_round [simp]: "length (reduce_round s lm) = WARP_SIZE"
  by (simp add: reduce_round_def)

lemma dominates_refl: "length lm0 = WARP_SIZE \<Longrightarrow> dominates WARP_SIZE lm0 lm0"
  unfolding dominates_def by blast

lemma dominates_round:
  assumes "dominates (2 * s) lm0 lm" and "2 * s \<le> WARP_SIZE"
  shows "dominates s lm0 (reduce_round s lm)"
  unfolding dominates_def
proof (intro conjI allI impI)
  show "length (reduce_round s lm) = WARP_SIZE" by simp
next
  fix t assume "t < WARP_SIZE"
  then obtain t' where t': "t' < 2 * s" "fst (lm0 ! t) \<le> fst (lm ! t')"
    using assms(1) unfolding dominates_def by blast
  show "\<exists>t'<s. fst (lm0 ! t) \<le> fst (reduce_round s lm ! t')"
  proof (cases "t' < s")
    case True
    then have "t' < WARP_SIZE" using assms(2) by simp
    then have "fst (lm ! t') \<le> fst (reduce_round s lm ! t')"
      by (simp add: reduce_round_nth)
    with t' True show ?thesis by (meson order_trans)
  next
    case False
    define u where "u = t' - s"
    have u: "u < s" "u + s = t'" "u + s < WARP_SIZE" "u < WARP_SIZE"
      using False t'(1) assms(2) by (simp_all add: u_def)
    have "fst (lm ! t') \<le> fst (reduce_round s lm ! u)"
      using u by (simp add: reduce_round_nth)
    with t' u show ?thesis by (meson order_trans)
  qed
next
  fix t' assume t': "t' < WARP_SIZE"
  have old: "\<And>x. x < WARP_SIZE \<Longrightarrow> \<exists>t<WARP_SIZE. lm ! x = lm0 ! t"
    using assms(1) unfolding dominates_def by blast
  show "\<exists>t<WARP_SIZE. reduce_round s lm ! t' = lm0 ! t"
    using t' old[of t'] old[of "t' + s"] by (simp add: reduce_round_nth)
qed

lemma warp_reduce_unroll:
  "warp_reduce (WARP_SIZE div 2) lm =
     reduce_round 1 (reduce_round 2 (reduce_round 4 (reduce_round 8 (reduce_round 16 lm))))"
  by (simp add: WARP_SIZE_def warp_reduce.simps)

lemma warp_reduce_dominates:
  assumes "length lm = WARP_SIZE"
  shows "dominates 1 lm (warp_reduce (WARP_SIZE div 2) lm)"
proof -
  have d32: "dominates (2 * 16) lm lm" using dominates_refl[OF assms] by (simp add: WARP_SIZE_def)
  have d16: "dominates (2 * 8) lm (reduce_round 16 lm)"
    using dominates_round[OF d32] by (simp add: WARP_SIZE_def)
  have d8: "dominates (2 * 4) lm (reduce_round 8 (reduce_round 16 lm))"
    using dominates_round[OF d16] by (simp add: WARP_SIZE_def)
  have d4: "dominates (2 * 2) lm (reduce_round 4 (reduce_round 8 (reduce_round 16 lm)))"
    using dominates_round[OF d8] by (simp add: WARP_SIZE_def)
  have d2: "dominates (2 * 1) lm (reduce_round 2 (reduce_round 4 (reduce_round 8 (reduce_round 16 lm))))"
    using dominates_round[OF d4] by (simp add: WARP_SIZE_def)
  show ?thesis
    unfolding warp_reduce_unroll using dominates_round[OF d2] by (simp add: WARP_SIZE_def)
qed


lemma length_warp_local_max [simp]: "length (warp_local_max m2 g k S C src) = WARP_SIZE"
  by (simp add: warp_local_max_def)

lemma warp_local_max_lane:
  assumes "t < WARP_SIZE"
  shows "lane_inv (\<lambda>l. C ! src \<noteq> C ! (indices g ! l)) (delta_mod m2 g k S C src)
           {l. offsets g ! src + t \<le> l \<and> l < offsets g ! (src + 1)
                \<and> (l - (offsets g ! src + t)) mod WARP_SIZE = 0}
           (warp_local_max m2 g k S C src ! t)"
proof -
  have "lane_inv (\<lambda>l. C ! src \<noteq> C ! (indices g ! l)) (delta_mod m2 g k S C src)
          ({} \<union> {l. offsets g ! src + t \<le> l \<and> l < offsets g ! (src + 1)
                \<and> (l - (offsets g ! src + t)) mod WARP_SIZE = 0})
          (lane_scan (lane_step m2 g k S C src) (offsets g ! src + t) (offsets g ! (src + 1)) (- 1, - 1))"
    by (rule lane_scan_inv [where I = "lane_inv (\<lambda>l. C ! src \<noteq> C ! (indices g ! l)) (delta_mod m2 g k S C src)"])
       (simp_all add: lane_step_inv lane_inv_init)
  then show ?thesis using assms by (simp add: warp_local_max_def)
qed

lemma lane_of_loc:
  assumes "a \<le> l"
  shows "(l - a) mod WARP_SIZE < WARP_SIZE \<and> a + (l - a) mod WARP_SIZE \<le> l
         \<and> (l - (a + (l - a) mod WARP_SIZE)) mod WARP_SIZE = 0"
proof -
  have W: "0 < WARP_SIZE" by (simp add: WARP_SIZE_def)
  have 1: "(l - a) mod WARP_SIZE < WARP_SIZE" by (rule mod_less_divisor [OF W])
  have 2: "(l - a) mod WARP_SIZE \<le> l - a" by (rule mod_less_eq_dividend)
  have 3: "l - (a + (l - a) mod WARP_SIZE) = (l - a) - (l - a) mod WARP_SIZE"
    by (rule diff_diff_left [symmetric])
  have 4: "((l - a) - (l - a) mod WARP_SIZE) mod WARP_SIZE = 0"
    by (simp only: minus_mod_eq_mult_div mod_mult_self1_is_0)
  have 5: "a + (l - a) mod WARP_SIZE \<le> l" using 2 assms by linarith
  show ?thesis using 1 4 5 unfolding 3 by blast
qed

lemma lane_inv_widen:
  assumes "\<And>l. l \<in> R \<Longrightarrow> cand l \<Longrightarrow> dm l \<le> fst r"
    and "lane_inv cand dm V r" and "V \<subseteq> R"
  shows "lane_inv cand dm R r"
  using assms unfolding lane_inv_def by blast

lemma warp_result:
  "lane_inv (\<lambda>l. C ! src \<noteq> C ! (indices g ! l)) (delta_mod m2 g k S C src)
     {offsets g ! src ..< offsets g ! (src + 1)}
     (warp_reduce (WARP_SIZE div 2) (warp_local_max m2 g k S C src) ! 0)"
proof -
  let ?cand = "\<lambda>l. C ! src \<noteq> C ! (indices g ! l)"
  let ?dm = "delta_mod m2 g k S C src"
  let ?lanes = "warp_local_max m2 g k S C src"
  let ?r = "warp_reduce (WARP_SIZE div 2) ?lanes ! 0"
  let ?V = "\<lambda>t. {l. offsets g ! src + t \<le> l \<and> l < offsets g ! (src + 1)
                \<and> (l - (offsets g ! src + t)) mod WARP_SIZE = 0}"
  have W: "0 < WARP_SIZE" by (simp add: WARP_SIZE_def)
  have dom: "dominates 1 ?lanes (warp_reduce (WARP_SIZE div 2) ?lanes)"
    by (rule warp_reduce_dominates) simp
  have ge: "fst (?lanes ! t) \<le> fst ?r" if "t < WARP_SIZE" for t
  proof -
    from dom that obtain t' where "t' < 1" "fst (?lanes ! t) \<le> fst (warp_reduce (WARP_SIZE div 2) ?lanes ! t')"
      unfolding dominates_def by blast
    then show ?thesis by simp
  qed
  obtain t0 where t0: "t0 < WARP_SIZE" "?r = ?lanes ! t0"
    using dom W unfolding dominates_def by blast
  have sub: "l \<in> {offsets g ! src ..< offsets g ! (src + 1)}" if "l \<in> ?V t" for t l
  proof -
    from that have "offsets g ! src + t \<le> l" "l < offsets g ! (src + 1)" by blast+
    then show ?thesis by simp
  qed
  have upper: "?dm l \<le> fst ?r" if "l \<in> {offsets g ! src ..< offsets g ! (src + 1)}" "?cand l" for l
  proof -
    define t where "t = (l - offsets g ! src) mod WARP_SIZE"
    from that(1) have le: "offsets g ! src \<le> l" and lt: "l < offsets g ! (src + 1)" by simp_all
    from lane_of_loc[OF le] have t: "t < WARP_SIZE" "offsets g ! src + t \<le> l"
        "(l - (offsets g ! src + t)) mod WARP_SIZE = 0"
      unfolding t_def by blast+
    with lt have mem: "l \<in> ?V t" by blast
    have "lane_inv ?cand ?dm (?V t) (?lanes ! t)" by (rule warp_local_max_lane[OF t(1)])
    then have "\<forall>l\<in>?V t. ?cand l \<longrightarrow> ?dm l \<le> fst (?lanes ! t)"
      unfolding lane_inv_def by (rule conjunct1)
    from bspec[OF this mem] that(2) have "?dm l \<le> fst (?lanes ! t)" by (rule mp)
    then show ?thesis using ge[OF t(1)] by (rule order_trans)
  qed
  have inv0: "lane_inv ?cand ?dm (?V t0) ?r"
    unfolding t0(2) by (rule warp_local_max_lane[OF t0(1)])
  have sub0: "?V t0 \<subseteq> {offsets g ! src ..< offsets g ! (src + 1)}"
    by (rule subsetI) (rule sub)
  show ?thesis
    by (rule lane_inv_widen [OF upper inv0 sub0])
qed

lemma update_assignment_stay:
  assumes "\<forall>l\<in>{offsets g ! src ..< offsets g ! (src + 1)}.
             C ! src \<noteq> C ! (indices g ! l) \<longrightarrow> delta_mod m2 g k S C src l \<le> 0"
  shows "update_assignment m2 g k src (S, C) = (S, C)"
proof -
  let ?r = "warp_reduce (WARP_SIZE div 2) (warp_local_max m2 g k S C src) ! 0"
  have "lane_inv (\<lambda>l. C ! src \<noteq> C ! (indices g ! l)) (delta_mod m2 g k S C src)
     {offsets g ! src ..< offsets g ! (src + 1)} ?r"
    by (rule warp_result)
  then have "fst ?r = - 1 \<or> fst ?r = 0 \<or>
     (\<exists>l\<in>{offsets g ! src ..< offsets g ! (src + 1)}.
        C ! src \<noteq> C ! (indices g ! l) \<and> delta_mod m2 g k S C src l = fst ?r \<and> snd ?r = int l)"
    unfolding lane_inv_def by (rule conjunct2)
  with assms have "\<not> fst ?r > 0" by fastforce
  then show ?thesis by (simp add: update_assignment_def Let_def)
qed

lemma update_assignment_move:
  assumes "\<exists>l\<in>{offsets g ! src ..< offsets g ! (src + 1)}.
             C ! src \<noteq> C ! (indices g ! l) \<and> 0 < delta_mod m2 g k S C src l"
    and "src < length C"
  shows "\<exists>loc\<in>{offsets g ! src ..< offsets g ! (src + 1)}.
           C ! src \<noteq> C ! (indices g ! loc) \<and> 0 < delta_mod m2 g k S C src loc \<and>
           (\<forall>l\<in>{offsets g ! src ..< offsets g ! (src + 1)}.
               C ! src \<noteq> C ! (indices g ! l) \<longrightarrow> delta_mod m2 g k S C src l \<le> delta_mod m2 g k S C src loc) \<and>
           update_assignment m2 g k src (S, C) =
             ((S[C ! src := S ! (C ! src) - k ! src])
                 [C ! (indices g ! loc) :=
                    (S[C ! src := S ! (C ! src) - k ! src]) ! (C ! (indices g ! loc)) + k ! src],
              C[src := C ! (indices g ! loc)])"
proof -
  let ?R = "{offsets g ! src ..< offsets g ! (src + 1)}"
  let ?cand = "\<lambda>l. C ! src \<noteq> C ! (indices g ! l)"
  let ?dm = "delta_mod m2 g k S C src"
  let ?r = "warp_reduce (WARP_SIZE div 2) (warp_local_max m2 g k S C src) ! 0"
  have inv: "lane_inv ?cand ?dm ?R ?r" by (rule warp_result)
  then have up: "\<forall>l\<in>?R. ?cand l \<longrightarrow> ?dm l \<le> fst ?r"
    unfolding lane_inv_def by (rule conjunct1)
  from inv have src: "fst ?r = - 1 \<or> fst ?r = 0 \<or>
     (\<exists>l\<in>?R. ?cand l \<and> ?dm l = fst ?r \<and> snd ?r = int l)"
    unfolding lane_inv_def by (rule conjunct2)
  from assms(1) obtain l0 where l0: "l0 \<in> ?R" "?cand l0" "0 < ?dm l0" by blast
  with up have pos: "0 < fst ?r" by fastforce
  with src obtain loc where loc: "loc \<in> ?R" "?cand loc" "?dm loc = fst ?r" "snd ?r = int loc"
    by fastforce
  have upd: "update_assignment m2 g k src (S, C) =
             ((S[C ! src := S ! (C ! src) - k ! src])
                 [C ! (indices g ! loc) :=
                    (S[C ! src := S ! (C ! src) - k ! src]) ! (C ! (indices g ! loc)) + k ! src],
              C[src := C ! (indices g ! loc)])"
    using pos loc(4) assms(2) by (simp add: update_assignment_def Let_def)
  show ?thesis
    using loc(1,2) pos up upd unfolding loc(3)[symmetric] by blast
qed

section \<open>Claims about the local-move sweep\<close>

text \<open>
  Claim C3. For a vertex \<open>v\<close> and an edge of \<open>v\<close> at offset \<open>loc\<close> to a neighbour
  \<open>u = indices[loc]\<close> with \<open>C[u] \<noteq> C[v]\<close>, the gain that the sweep computes for moving \<open>v\<close>
  from \<open>old = C[v]\<close> to \<open>new = C[u]\<close> is
  \<open>S\<^sub>i\<^sub>n(new) - (k\<^sub>v/m2) \<Sigma>\<^sub>n\<^sub>e\<^sub>w - [S\<^sub>i\<^sub>n(old) - (k\<^sub>v/m2) (\<Sigma>\<^sub>o\<^sub>l\<^sub>d - k\<^sub>v)]\<close>, where \<open>S\<^sub>i\<^sub>n(c)\<close> adds
  the weights of the edges of \<open>v\<close> to neighbours \<open>w \<noteq> v\<close> with \<open>C[w] = c\<close>; this is the value
  that the lane compares with its running maximum.
\<close>

theorem delta_mod_is_gain_formula:
  assumes "C ! (indices g ! loc) \<noteq> C ! v"
  shows "delta_mod m2 g k S C v loc
           = S_in g C v (C ! (indices g ! loc)) - (k ! v / m2) * S ! (C ! (indices g ! loc))
             - (S_in g C v (C ! v) - (k ! v / m2) * (S ! (C ! v) - k ! v)) \<and>
         lane_step m2 g k S C v loc lm
           = (if delta_mod m2 g k S C v loc > fst lm
              then (delta_mod m2 g k S C v loc, int loc) else lm)"
proof
  show "delta_mod m2 g k S C v loc
           = S_in g C v (C ! (indices g ! loc)) - (k ! v / m2) * S ! (C ! (indices g ! loc))
             - (S_in g C v (C ! v) - (k ! v / m2) * (S ! (C ! v) - k ! v))"
    using assms by (rule delta_mod_formula)
  show "lane_step m2 g k S C v loc lm
           = (if delta_mod m2 g k S C v loc > fst lm
              then (delta_mod m2 g k S C v loc, int loc) else lm)"
    using assms by (simp add: lane_step_def Let_def eq_commute [of "C ! v"])
qed

theorem delta_mod_is_gain_formula_witness:
  "star_identity ! (indices star_graph ! 1) \<noteq> star_identity ! 0 \<and>
   delta_mod 10 star_graph star_vertex_weights star_vertex_weights star_identity 0 1
     = S_in star_graph star_identity 0 (star_identity ! (indices star_graph ! 1))
       - (star_vertex_weights ! 0 / 10)
           * star_vertex_weights ! (star_identity ! (indices star_graph ! 1))
       - (S_in star_graph star_identity 0 (star_identity ! 0)
           - (star_vertex_weights ! 0 / 10)
               * (star_vertex_weights ! (star_identity ! 0) - star_vertex_weights ! 0)) \<and>
   delta_mod 10 star_graph star_vertex_weights star_vertex_weights star_identity 0 1 = 1"
proof -
  have h: "star_identity ! (indices star_graph ! 1) \<noteq> star_identity ! 0"
    by (simp add: star_graph_def star_identity_def)
  have v: "delta_mod 10 star_graph star_vertex_weights star_vertex_weights star_identity 0 1 = 1"
    by code_simp
  from delta_mod_is_gain_formula [OF h, of 10 star_vertex_weights star_vertex_weights]
  have "delta_mod 10 star_graph star_vertex_weights star_vertex_weights star_identity 0 1
     = S_in star_graph star_identity 0 (star_identity ! (indices star_graph ! 1))
       - (star_vertex_weights ! 0 / 10)
           * star_vertex_weights ! (star_identity ! (indices star_graph ! 1))
       - (S_in star_graph star_identity 0 (star_identity ! 0)
           - (star_vertex_weights ! 0 / 10)
               * (star_vertex_weights ! (star_identity ! 0) - star_vertex_weights ! 0))"
    by (rule conjunct1)
  with h v show ?thesis by blast
qed

text \<open>
  Claim C4 (as the specification states it, refuted). In the star graph under the identity
  clustering the edges of vertex 0 at offsets 1 and 2 lead to different clusters and tie at
  the largest gain, which is positive; the sweep moves vertex 0 to the cluster of the edge
  at offset 2, not to the one at the lowest offset.
\<close>

theorem tie_not_broken_by_lowest_offset:
  "delta_mod 10 star_graph star_vertex_weights star_vertex_weights star_identity 0 1
     = delta_mod 10 star_graph star_vertex_weights star_vertex_weights star_identity 0 2 \<and>
   delta_mod 10 star_graph star_vertex_weights star_vertex_weights star_identity 0 0
     < delta_mod 10 star_graph star_vertex_weights star_vertex_weights star_identity 0 1 \<and>
   0 < delta_mod 10 star_graph star_vertex_weights star_vertex_weights star_identity 0 1 \<and>
   star_identity ! (indices star_graph ! 1) = 2 \<and>
   star_identity ! (indices star_graph ! 2) = 3 \<and>
   compute_vertex_sums star_graph [0, 0, 0, 0] = star_vertex_weights \<and>
   update_assignment 10 star_graph star_vertex_weights 0 (star_vertex_weights, star_identity)
     = ([0, 1, 2, 7], [3, 1, 2, 3])"
  by code_simp

text \<open>
  Claim C4 (amended). In every sweep, when some edge of \<open>v\<close> to another cluster has a
  positive gain, \<open>v\<close> is moved to the cluster of an edge of \<open>v\<close> whose gain is positive and
  largest among the edges of \<open>v\<close> to other clusters, and the move is exactly
  \<open>\<Sigma>[old] -= k\<^sub>v; C[v] \<leftarrow> new; \<Sigma>[new] += k\<^sub>v\<close>; when no such edge has a positive gain,
  \<open>C\<close> and \<open>\<Sigma>\<close> stay as they are. Which of several edges of largest gain wins is decided by
  the reduction of the warp.
\<close>

theorem update_assignment_best_move:
  assumes "v < length C"
  shows "if \<exists>l\<in>{offsets g ! v ..< offsets g ! (v + 1)}.
               C ! v \<noteq> C ! (indices g ! l) \<and> 0 < delta_mod m2 g k S C v l
         then \<exists>loc\<in>{offsets g ! v ..< offsets g ! (v + 1)}.
                C ! v \<noteq> C ! (indices g ! loc) \<and> 0 < delta_mod m2 g k S C v loc \<and>
                (\<forall>l\<in>{offsets g ! v ..< offsets g ! (v + 1)}.
                    C ! v \<noteq> C ! (indices g ! l) \<longrightarrow>
                    delta_mod m2 g k S C v l \<le> delta_mod m2 g k S C v loc) \<and>
                update_assignment m2 g k v (S, C) =
                  (S[C ! v := S ! (C ! v) - k ! v,
                     C ! (indices g ! loc) := S ! (C ! (indices g ! loc)) + k ! v],
                   C[v := C ! (indices g ! loc)])
         else update_assignment m2 g k v (S, C) = (S, C)"
proof (cases "\<exists>l\<in>{offsets g ! v ..< offsets g ! (v + 1)}.
               C ! v \<noteq> C ! (indices g ! l) \<and> 0 < delta_mod m2 g k S C v l")
  case True
  from update_assignment_move [OF True assms]
  obtain loc where loc: "loc \<in> {offsets g ! v ..< offsets g ! (v + 1)}"
      "C ! v \<noteq> C ! (indices g ! loc)" "0 < delta_mod m2 g k S C v loc"
      "\<forall>l\<in>{offsets g ! v ..< offsets g ! (v + 1)}.
          C ! v \<noteq> C ! (indices g ! l) \<longrightarrow>
          delta_mod m2 g k S C v l \<le> delta_mod m2 g k S C v loc"
      "update_assignment m2 g k v (S, C) =
             ((S[C ! v := S ! (C ! v) - k ! v])
                 [C ! (indices g ! loc) :=
                    (S[C ! v := S ! (C ! v) - k ! v]) ! (C ! (indices g ! loc)) + k ! v],
              C[v := C ! (indices g ! loc)])"
    by blast
  from loc(2) have "(S[C ! v := S ! (C ! v) - k ! v]) ! (C ! (indices g ! loc))
      = S ! (C ! (indices g ! loc))"
    by simp
  with loc(5) have "update_assignment m2 g k v (S, C) =
                  (S[C ! v := S ! (C ! v) - k ! v,
                     C ! (indices g ! loc) := S ! (C ! (indices g ! loc)) + k ! v],
                   C[v := C ! (indices g ! loc)])"
    by simp
  with loc(1-4) have "\<exists>loc\<in>{offsets g ! v ..< offsets g ! (v + 1)}.
                C ! v \<noteq> C ! (indices g ! loc) \<and> 0 < delta_mod m2 g k S C v loc \<and>
                (\<forall>l\<in>{offsets g ! v ..< offsets g ! (v + 1)}.
                    C ! v \<noteq> C ! (indices g ! l) \<longrightarrow>
                    delta_mod m2 g k S C v l \<le> delta_mod m2 g k S C v loc) \<and>
                update_assignment m2 g k v (S, C) =
                  (S[C ! v := S ! (C ! v) - k ! v,
                     C ! (indices g ! loc) := S ! (C ! (indices g ! loc)) + k ! v],
                   C[v := C ! (indices g ! loc)])"
    by blast
  with True show ?thesis by (simp only: if_True)
next
  case False
  then have "\<forall>l\<in>{offsets g ! v ..< offsets g ! (v + 1)}.
             C ! v \<noteq> C ! (indices g ! l) \<longrightarrow> delta_mod m2 g k S C v l \<le> 0"
    by (meson not_less)
  then have "update_assignment m2 g k v (S, C) = (S, C)"
    by (rule update_assignment_stay)
  with False show ?thesis by (simp only: if_False)
qed

theorem update_assignment_best_move_witness:
  "0 < length star_identity \<and>
   (\<exists>loc\<in>{offsets star_graph ! 0 ..< offsets star_graph ! (0 + 1)}.
       star_identity ! 0 \<noteq> star_identity ! (indices star_graph ! loc) \<and>
       0 < delta_mod 10 star_graph star_vertex_weights star_vertex_weights star_identity 0 loc \<and>
       update_assignment 10 star_graph star_vertex_weights 0 (star_vertex_weights, star_identity) =
         (star_vertex_weights
            [star_identity ! 0 :=
               star_vertex_weights ! (star_identity ! 0) - star_vertex_weights ! 0,
             star_identity ! (indices star_graph ! loc) :=
               star_vertex_weights ! (star_identity ! (indices star_graph ! loc))
                 + star_vertex_weights ! 0],
          star_identity[0 := star_identity ! (indices star_graph ! loc)]))"
proof -
  have h: "0 < length star_identity" by (simp add: star_identity_def)
  have "0 < delta_mod 10 star_graph star_vertex_weights star_vertex_weights star_identity 0 1"
    by code_simp
  moreover have "(1 :: nat) \<in> {offsets star_graph ! 0 ..< offsets star_graph ! (0 + 1)}"
    by (simp add: star_graph_def)
  moreover have "star_identity ! 0 \<noteq> star_identity ! (indices star_graph ! 1)"
    by (simp add: star_graph_def star_identity_def)
  ultimately have c: "\<exists>l\<in>{offsets star_graph ! 0 ..< offsets star_graph ! (0 + 1)}.
      star_identity ! 0 \<noteq> star_identity ! (indices star_graph ! l) \<and>
      0 < delta_mod 10 star_graph star_vertex_weights star_vertex_weights star_identity 0 l"
    by blast
  from update_assignment_best_move
         [OF h, of star_graph 10 star_vertex_weights star_vertex_weights] c
  have "\<exists>loc\<in>{offsets star_graph ! 0 ..< offsets star_graph ! (0 + 1)}.
       star_identity ! 0 \<noteq> star_identity ! (indices star_graph ! loc) \<and>
       0 < delta_mod 10 star_graph star_vertex_weights star_vertex_weights star_identity 0 loc \<and>
       (\<forall>l\<in>{offsets star_graph ! 0 ..< offsets star_graph ! (0 + 1)}.
           star_identity ! 0 \<noteq> star_identity ! (indices star_graph ! l) \<longrightarrow>
           delta_mod 10 star_graph star_vertex_weights star_vertex_weights star_identity 0 l
             \<le> delta_mod 10 star_graph star_vertex_weights star_vertex_weights star_identity 0 loc) \<and>
       update_assignment 10 star_graph star_vertex_weights 0 (star_vertex_weights, star_identity) =
         (star_vertex_weights
            [star_identity ! 0 :=
               star_vertex_weights ! (star_identity ! 0) - star_vertex_weights ! 0,
             star_identity ! (indices star_graph ! loc) :=
               star_vertex_weights ! (star_identity ! (indices star_graph ! loc))
                 + star_vertex_weights ! 0],
          star_identity[0 := star_identity ! (indices star_graph ! loc)])"
    by (simp only: if_True)
  then have "\<exists>loc\<in>{offsets star_graph ! 0 ..< offsets star_graph ! (0 + 1)}.
       star_identity ! 0 \<noteq> star_identity ! (indices star_graph ! loc) \<and>
       0 < delta_mod 10 star_graph star_vertex_weights star_vertex_weights star_identity 0 loc \<and>
       update_assignment 10 star_graph star_vertex_weights 0 (star_vertex_weights, star_identity) =
         (star_vertex_weights
            [star_identity ! 0 :=
               star_vertex_weights ! (star_identity ! 0) - star_vertex_weights ! 0,
             star_identity ! (indices star_graph ! loc) :=
               star_vertex_weights ! (star_identity ! (indices star_graph ! loc))
                 + star_vertex_weights ! 0],
          star_identity[0 := star_identity ! (indices star_graph ! loc)])"
    by blast
  with h show ?thesis by (rule conjI)
qed

section \<open>The cluster compactor\<close>

lemma fold_write_nth:
  "n \<le> length d \<Longrightarrow>
   fold (\<lambda>i d. d[i := F i (d ! i)]) [0..<n] d = map (\<lambda>i. F i (d ! i)) [0..<n] @ drop n d"
proof (induction n)
  case 0
  then show ?case by simp
next
  case (Suc n)
  let ?r = "map (\<lambda>i. F i (d ! i)) [0..<n] @ drop n d"
  from Suc have IH: "fold (\<lambda>i d. d[i := F i (d ! i)]) [0..<n] d = ?r" and n: "n < length d"
    by simp_all
  have rn: "?r ! n = d ! n" using n by (simp add: nth_append)
  have "?r[n := F n (d ! n)] = map (\<lambda>i. F i (d ! i)) [0..<n] @ (drop n d)[0 := F n (d ! n)]"
    by (simp add: list_update_append)
  also have "(drop n d)[0 := F n (d ! n)] = F n (d ! n) # drop (Suc n) d"
    using n by (simp add: Cons_nth_drop_Suc [symmetric])
  finally have "?r[n := F n (d ! n)] = map (\<lambda>i. F i (d ! i)) [0..<Suc n] @ drop (Suc n) d"
    by simp
  with IH rn show ?case by simp
qed

lemma distinct_remdups_adj_sorted:
  "sorted xs \<Longrightarrow> distinct (remdups_adj (xs :: nat list))"
  by (induction xs rule: remdups_adj.induct) (auto)

lemma scatter_inverse:
  assumes "distinct U" and "k \<le> length U" and "\<forall>u\<in>set U. u < length inv0" and "i < k"
  shows "fold (\<lambda>i inv. inv[U ! i := int i]) [0..<k] inv0 ! (U ! i) = int i"
  using assms(2,4)
proof (induction k)
  case 0
  then show ?case by simp
next
  case (Suc k)
  let ?inv = "fold (\<lambda>i inv. inv[U ! i := int i]) [0..<k] inv0"
  have len: "length ?inv = length inv0"
    by (induction k) simp_all
  show ?case
  proof (cases "i = k")
    case True
    with Suc.prems assms(3) len show ?thesis by simp
  next
    case False
    with Suc.prems have ik: "i < k" "k < length U" "i < length U" by simp_all
    with assms(1) have "U ! i \<noteq> U ! k" by (simp add: nth_eq_iff_index_eq)
    with Suc.IH ik show ?thesis by simp
  qed
qed


lemma renumber_clusters_unfold:
  assumes "vsize cluster \<le> length (storage cluster)" and "gnv \<le> length L"
  shows "renumber_clusters gnv cluster N L =
     (let U = remdups_adj (sort (take (vsize cluster) (storage cluster)));
          inv = fold (\<lambda>i inv. inv[U ! i := int i]) [0..<length U] (replicate N (- 1));
          d = map (\<lambda>i. nat (inv ! (storage cluster ! i))) [0..<vsize cluster]
                @ drop (vsize cluster) (storage cluster)
      in (length U, \<lparr>storage = d, vsize = length U\<rparr>,
          map (\<lambda>i. d ! (L ! i)) [0..<gnv] @ drop gnv L))"
  using assms
  by (simp add: renumber_clusters_def Let_def
        fold_write_nth [where F = "\<lambda>i x. nat (inv ! x)" for inv]
        fold_write_nth [where F = "\<lambda>i x. d ! x" for d])

lemma renumber_rank:
  assumes "\<forall>c\<in>set C. c < N"
  defines "U \<equiv> remdups_adj (sort C)"
  defines "cinv \<equiv> fold (\<lambda>i inv. inv[U ! i := int i]) [0..<length U] (replicate N (- 1))"
  shows "length U = card (set C)"
    and "\<And>c. c \<in> set C \<Longrightarrow> nat (cinv ! c) < length U \<and> U ! nat (cinv ! c) = c \<and> 0 \<le> cinv ! c"
    and "\<And>i. i < length U \<Longrightarrow> U ! i \<in> set C \<and> nat (cinv ! (U ! i)) = i"
proof -
  have dU: "distinct U" unfolding U_def by (rule distinct_remdups_adj_sorted) simp
  have sU: "set U = set C" unfolding U_def by simp
  show "length U = card (set C)"
    using distinct_card [OF dU] sU by simp
  have bound: "\<forall>u\<in>set U. u < length (replicate N (- 1 :: int))"
    using assms(1) sU by simp
  have at: "cinv ! (U ! i) = int i" if "i < length U" for i
    unfolding cinv_def by (rule scatter_inverse [OF dU le_refl bound that])
  show "nat (cinv ! c) < length U \<and> U ! nat (cinv ! c) = c \<and> 0 \<le> cinv ! c" if "c \<in> set C" for c
  proof -
    from that sU obtain i where i: "i < length U" "U ! i = c"
      by (metis in_set_conv_nth)
    with at [OF i(1)] show ?thesis by simp
  qed
  show "U ! i \<in> set C \<and> nat (cinv ! (U ! i)) = i" if "i < length U" for i
    using that at [OF that] sU by (metis nat_int nth_mem)
qed

lemma renumber_clusters_post:
  assumes "vsize cluster \<le> length (storage cluster)"
    and "\<forall>c\<in>set (take (vsize cluster) (storage cluster)). c < cluster_inverse_size"
    and "graph_num_vertices \<le> length L"
    and "\<forall>l\<in>set (take graph_num_vertices L). l < vsize cluster"
  shows "case renumber_clusters graph_num_vertices cluster cluster_inverse_size L of
           (k, cluster', L') \<Rightarrow>
             k = card (set (take (vsize cluster) (storage cluster))) \<and>
             set (take (vsize cluster) (storage cluster')) = {0..<k} \<and>
             vsize cluster' = k \<and>
             length L' = length L \<and>
             length (storage cluster') = length (storage cluster) \<and>
             (\<forall>l\<in>set (take graph_num_vertices L'). l < k)"
proof -
  let ?C = "take (vsize cluster) (storage cluster)"
  let ?U = "remdups_adj (sort ?C)"
  let ?inv = "fold (\<lambda>i inv. inv[?U ! i := int i]) [0..<length ?U]
                (replicate cluster_inverse_size (- 1))"
  let ?d = "map (\<lambda>i. nat (?inv ! (storage cluster ! i))) [0..<vsize cluster]
                @ drop (vsize cluster) (storage cluster)"
  let ?L' = "map (\<lambda>i. ?d ! (L ! i)) [0..<graph_num_vertices] @ drop graph_num_vertices L"
  note rk = renumber_rank [OF assms(2)]
  have eq: "renumber_clusters graph_num_vertices cluster cluster_inverse_size L
              = (length ?U, \<lparr>storage = ?d, vsize = length ?U\<rparr>, ?L')"
    using renumber_clusters_unfold [OF assms(1,3)] by (simp add: Let_def)
  have mem: "storage cluster ! j \<in> set ?C" if "j < vsize cluster" for j
    using that assms(1) by (metis length_take min.absorb2 nth_mem nth_take)
  have dj: "?d ! j = nat (?inv ! (storage cluster ! j))" if "j < vsize cluster" for j
    using that by (simp add: nth_append)
  have take_d: "take (vsize cluster) ?d = map (\<lambda>i. nat (?inv ! (storage cluster ! i))) [0..<vsize cluster]"
    by simp
  have img: "set (take (vsize cluster) ?d) = {0..<length ?U}"
  proof (rule set_eqI, rule iffI)
    fix x assume "x \<in> set (take (vsize cluster) ?d)"
    then obtain j where j: "j < vsize cluster" "x = nat (?inv ! (storage cluster ! j))"
      unfolding take_d by auto
    with rk(2) [OF mem [OF j(1)]] show "x \<in> {0..<length ?U}" by simp
  next
    fix x assume "x \<in> {0..<length ?U}"
    then have x: "x < length ?U" by simp
    from rk(3) [OF x] have "?U ! x \<in> set ?C" "nat (?inv ! (?U ! x)) = x" by simp_all
    then obtain j where j: "j < length ?C" "?C ! j = ?U ! x" by (metis in_set_conv_nth)
    then have "j < vsize cluster" "storage cluster ! j = ?U ! x" by simp_all
    with \<open>nat (?inv ! (?U ! x)) = x\<close> have "x = nat (?inv ! (storage cluster ! j))" by simp
    with \<open>j < vsize cluster\<close> show "x \<in> set (take (vsize cluster) ?d)"
      unfolding take_d by auto
  qed
  have lab: "\<forall>l\<in>set (take graph_num_vertices ?L'). l < length ?U"
  proof
    fix l assume "l \<in> set (take graph_num_vertices ?L')"
    then obtain i where i: "i < graph_num_vertices" "l = ?d ! (L ! i)" by auto
    from i(1) assms(3) have "L ! i \<in> set (take graph_num_vertices L)"
      by (metis length_take min.absorb2 nth_mem nth_take)
    with assms(4) have lt: "L ! i < vsize cluster" by blast
    from rk(2) [OF mem [OF lt]] dj [OF lt] i(2) show "l < length ?U" by simp
  qed
  have len: "length ?L' = length L" using assms(3) by simp
  have lend: "length ?d = length (storage cluster)" using assms(1) by simp
  show ?thesis
    unfolding eq using rk(1) img lab len lend by simp
qed


lemma map_nth_prefix: "k \<le> length xs \<Longrightarrow> map (\<lambda>i. xs ! i) [0..<k] = take k xs"
  by (simp add: list_eq_iff_nth_eq)

lemma renumber_clusters_identity:
  assumes "k \<le> length st" and "take k st = [0..<k]" and "k \<le> N"
    and "gnv \<le> length L" and "\<forall>l\<in>set (take gnv L). l < k"
  shows "renumber_clusters gnv \<lparr>storage = st, vsize = k\<rparr> N L = (k, \<lparr>storage = st, vsize = k\<rparr>, L)"
proof -
  let ?U = "remdups_adj (sort (take k st))"
  let ?cinv = "fold (\<lambda>i inv. inv[?U ! i := int i]) [0..<length ?U] (replicate N (- 1))"
  let ?d = "map (\<lambda>i. nat (?cinv ! (st ! i))) [0..<k] @ drop k st"
  have U: "?U = [0..<k]" by (simp add: assms(2) remdups_adj_distinct)
  have at: "?cinv ! i = int i" if "i < k" for i
  proof -
    have "fold (\<lambda>i inv. inv[[0..<k] ! i := int i]) [0..<k] (replicate N (- 1)) ! ([0..<k] ! i) = int i"
      by (rule scatter_inverse) (use that assms(3) in auto)
    with that show ?thesis by (simp add: U)
  qed
  have sti: "st ! i = i" if "i < k" for i
    using that assms(1,2) by (metis add_0 nth_take nth_upt)
  have "map (\<lambda>i. nat (?cinv ! (st ! i))) [0..<k] = map (\<lambda>i. st ! i) [0..<k]"
    by (rule map_cong) (simp_all add: sti at)
  then have d: "?d = st"
    using assms(1) by (simp add: map_nth_prefix)
  have "map (\<lambda>i. st ! (L ! i)) [0..<gnv] = map (\<lambda>i. L ! i) [0..<gnv]"
  proof (rule map_cong)
    fix i assume "i \<in> set [0..<gnv]"
    then have i: "i < gnv" by simp
    with assms(4) have "L ! i \<in> set (take gnv L)"
      by (metis length_take min.absorb2 nth_mem nth_take)
    with assms(5) have "L ! i < k" by blast
    then show "st ! (L ! i) = L ! i" by (rule sti)
  qed simp
  then have L: "map (\<lambda>i. st ! (L ! i)) [0..<gnv] @ drop gnv L = L"
    using assms(4) by (simp add: map_nth_prefix)
  have "renumber_clusters gnv \<lparr>storage = st, vsize = k\<rparr> N L
      = (length ?U, \<lparr>storage = ?d, vsize = length ?U\<rparr>,
          map (\<lambda>i. ?d ! (L ! i)) [0..<gnv] @ drop gnv L)"
    using renumber_clusters_unfold [of "\<lparr>storage = st, vsize = k\<rparr>" gnv L N] assms(1,4)
    by (simp add: Let_def)
  also have "\<dots> = (k, \<lparr>storage = st, vsize = k\<rparr>, L)"
    unfolding d L by (simp add: U)
  finally show ?thesis .
qed

section \<open>Claims about the cluster compactor\<close>

text \<open>
  Claim C6. After \<^verbatim>\<open>renumber_clusters\<close> has run on a cluster vector \<open>C\<close> (the entries of
  \<^verbatim>\<open>cluster\<close> for the vertices of the current level), the set of values of \<open>C\<close> is exactly
  \<open>[0, k)\<close>, where \<open>k\<close> is the number of distinct values in \<open>C\<close> before; \<open>k\<close> is returned and
  is the new size of the vector; and every entry of the label vector lies in \<open>[0, k)\<close>.
  The preconditions keep every index in range: the values of \<open>C\<close> index
  \<^verbatim>\<open>cluster_inverse\<close> and the labels index \<open>C\<close>.
\<close>

theorem renumber_clusters_dense:
  assumes "vsize cluster \<le> length (storage cluster)"
    and "\<forall>c\<in>set (take (vsize cluster) (storage cluster)). c < cluster_inverse_size"
    and "graph_num_vertices \<le> length L"
    and "\<forall>l\<in>set (take graph_num_vertices L). l < vsize cluster"
  shows "case renumber_clusters graph_num_vertices cluster cluster_inverse_size L of
           (k, cluster', L') \<Rightarrow>
             k = card (set (take (vsize cluster) (storage cluster))) \<and>
             set (take (vsize cluster) (storage cluster')) = {0..<k} \<and>
             vsize cluster' = k \<and>
             (\<forall>l\<in>set (take graph_num_vertices L'). l < k)"
proof -
  obtain k cluster' L' where r:
    "renumber_clusters graph_num_vertices cluster cluster_inverse_size L = (k, cluster', L')"
    by (metis prod_cases3)
  from renumber_clusters_post [OF assms]
  have "k = card (set (take (vsize cluster) (storage cluster))) \<and>
        set (take (vsize cluster) (storage cluster')) = {0..<k} \<and>
        vsize cluster' = k \<and>
        length L' = length L \<and>
        length (storage cluster') = length (storage cluster) \<and>
        (\<forall>l\<in>set (take graph_num_vertices L'). l < k)"
    unfolding r prod.case .
  then have "k = card (set (take (vsize cluster) (storage cluster))) \<and>
        set (take (vsize cluster) (storage cluster')) = {0..<k} \<and>
        vsize cluster' = k \<and>
        (\<forall>l\<in>set (take graph_num_vertices L'). l < k)"
    by blast
  then show ?thesis unfolding r prod.case .
qed

theorem renumber_clusters_dense_witness:
  "vsize \<lparr>storage = [2, 2, 2, 0], vsize = 4\<rparr> \<le> length (storage \<lparr>storage = [2, 2, 2, 0 :: nat], vsize = 4\<rparr>) \<and>
   renumber_clusters 4 \<lparr>storage = [2, 2, 2, 0], vsize = 4\<rparr> 4 [0, 1, 2, 3]
     = (2, \<lparr>storage = [1, 1, 1, 0], vsize = 2\<rparr>, [1, 1, 1, 0]) \<and>
   (2 :: nat) = card (set (take (vsize \<lparr>storage = [2, 2, 2, 0 :: nat], vsize = 4\<rparr>)
                              (storage \<lparr>storage = [2, 2, 2, 0 :: nat], vsize = 4\<rparr>))) \<and>
   set (take (vsize \<lparr>storage = [2, 2, 2, 0 :: nat], vsize = 4\<rparr>)
          (storage \<lparr>storage = [1, 1, 1, 0 :: nat], vsize = 2\<rparr>)) = {0..<2}"
proof -
  have h1: "vsize \<lparr>storage = [2, 2, 2, 0], vsize = 4\<rparr> \<le> length (storage \<lparr>storage = [2, 2, 2, 0 :: nat], vsize = 4\<rparr>)"
    by simp
  have h2: "\<forall>c\<in>set (take (vsize \<lparr>storage = [2, 2, 2, 0], vsize = 4\<rparr>) (storage \<lparr>storage = [2, 2, 2, 0 :: nat], vsize = 4\<rparr>)). c < 4"
    by simp
  have h3: "4 \<le> length [0, 1, 2, 3 :: nat]" by simp
  have h4: "\<forall>l\<in>set (take 4 [0, 1, 2, 3 :: nat]). l < vsize \<lparr>storage = [2, 2, 2, 0 :: nat], vsize = 4\<rparr>"
    by simp
  have v: "renumber_clusters 4 \<lparr>storage = [2, 2, 2, 0], vsize = 4\<rparr> 4 [0, 1, 2, 3]
     = (2, \<lparr>storage = [1, 1, 1, 0], vsize = 2\<rparr>, [1, 1, 1, 0])"
    by code_simp
  from renumber_clusters_dense [OF h1 h2 h3 h4]
  have "(2 :: nat) = card (set (take (vsize \<lparr>storage = [2, 2, 2, 0 :: nat], vsize = 4\<rparr>)
                              (storage \<lparr>storage = [2, 2, 2, 0 :: nat], vsize = 4\<rparr>))) \<and>
   set (take (vsize \<lparr>storage = [2, 2, 2, 0 :: nat], vsize = 4\<rparr>)
          (storage \<lparr>storage = [1, 1, 1, 0 :: nat], vsize = 2\<rparr>)) = {0..<2} \<and>
   vsize \<lparr>storage = [1, 1, 1, 0 :: nat], vsize = 2\<rparr> = 2 \<and>
   (\<forall>l\<in>set (take 4 [1, 1, 1, 0 :: nat]). l < 2)"
    unfolding v prod.case .
  with h1 v show ?thesis by blast
qed

text \<open>
  Claim C8 (as the specification states it, refuted). On \<open>C = [1, 1, 0]\<close> and
  \<open>L = [0, 1, 2]\<close> a second call changes both vectors: the first call leaves the vector
  with size 2, so the second call sees the two entries \<open>[1, 1]\<close>, and it composes the labels
  with \<open>C\<close> once more.
\<close>

theorem renumber_clusters_twice_differs:
  "renumber_clusters 3 \<lparr>storage = [1, 1, 0], vsize = 3\<rparr> 3 [0, 1, 2]
     = (2, \<lparr>storage = [1, 1, 0], vsize = 2\<rparr>, [1, 1, 0]) \<and>
   renumber_clusters_twice 3 \<lparr>storage = [1, 1, 0], vsize = 3\<rparr> 3 [0, 1, 2]
     = (1, \<lparr>storage = [0, 0, 0], vsize = 1\<rparr>, [0, 0, 0])"
  by code_simp

text \<open>
  Claim C8 (amended). After \<^verbatim>\<open>renumber_clusters\<close> has run and the driver has reset
  \<^verbatim>\<open>cluster_v\<close> to the identity on \<open>[0, k)\<close>, a second call with no sweep in between is a
  no-op: it returns \<open>k\<close> again and leaves the cluster vector and the label vector as they
  are.
\<close>

theorem renumber_clusters_after_reset_noop:
  assumes "vsize cluster \<le> length (storage cluster)"
    and "\<forall>c\<in>set (take (vsize cluster) (storage cluster)). c < cluster_inverse_size"
    and "graph_num_vertices \<le> length L"
    and "\<forall>l\<in>set (take graph_num_vertices L). l < vsize cluster"
  shows "case renumber_clusters graph_num_vertices cluster cluster_inverse_size L of
           (k, cluster', L') \<Rightarrow>
             renumber_clusters graph_num_vertices
                 (cluster'\<lparr>storage := overwrite_prefix [0..<vsize cluster'] (storage cluster')\<rparr>)
                 cluster_inverse_size L'
               = (k, cluster'\<lparr>storage := overwrite_prefix [0..<vsize cluster'] (storage cluster')\<rparr>, L')"
proof -
  obtain k cluster' L' where r:
    "renumber_clusters graph_num_vertices cluster cluster_inverse_size L = (k, cluster', L')"
    by (metis prod_cases3)
  from renumber_clusters_post [OF assms]
  have "k = card (set (take (vsize cluster) (storage cluster))) \<and>
        set (take (vsize cluster) (storage cluster')) = {0..<k} \<and>
        vsize cluster' = k \<and>
        length L' = length L \<and>
        length (storage cluster') = length (storage cluster) \<and>
        (\<forall>l\<in>set (take graph_num_vertices L'). l < k)"
    unfolding r prod.case .
  then have p: "k = card (set (take (vsize cluster) (storage cluster)))"
      "vsize cluster' = k" "length L' = length L"
      "length (storage cluster') = length (storage cluster)"
      "\<forall>l\<in>set (take graph_num_vertices L'). l < k"
    by blast+
  have fin: "set (take (vsize cluster) (storage cluster)) \<subseteq> {..<cluster_inverse_size}"
    using assms(2) by auto
  have kN: "k \<le> cluster_inverse_size"
    unfolding p(1) using card_mono [OF _ fin] by simp
  have "k \<le> length (take (vsize cluster) (storage cluster))"
    unfolding p(1) by (rule card_length)
  with assms(1) p(4) have klen: "k \<le> length (storage cluster')" by simp
  let ?st = "overwrite_prefix [0..<k] (storage cluster')"
  have c2: "cluster'\<lparr>storage := overwrite_prefix [0..<vsize cluster'] (storage cluster')\<rparr>
              = \<lparr>storage = ?st, vsize = k\<rparr>"
    using p(2) by simp
  have a1: "k \<le> length ?st" using klen by (simp add: overwrite_prefix_def)
  have a2: "take k ?st = [0..<k]" by (simp add: overwrite_prefix_def)
  have a4: "graph_num_vertices \<le> length L'" using assms(3) p(3) by simp
  have "renumber_clusters graph_num_vertices \<lparr>storage = ?st, vsize = k\<rparr> cluster_inverse_size L'
          = (k, \<lparr>storage = ?st, vsize = k\<rparr>, L')"
    by (rule renumber_clusters_identity [OF a1 a2 kN a4 p(5)])
  then show ?thesis unfolding r prod.case c2 .
qed

theorem renumber_clusters_after_reset_noop_witness:
  "vsize \<lparr>storage = [1, 1, 0], vsize = 3\<rparr> \<le> length (storage \<lparr>storage = [1, 1, 0 :: nat], vsize = 3\<rparr>) \<and>
   renumber_clusters 3 \<lparr>storage = [1, 1, 0], vsize = 3\<rparr> 3 [0, 1, 2]
     = (2, \<lparr>storage = [1, 1, 0], vsize = 2\<rparr>, [1, 1, 0]) \<and>
   overwrite_prefix [0..<2] [1, 1, 0] = [0, 1, 0] \<and>
   renumber_clusters 3 \<lparr>storage = [0, 1, 0], vsize = 2\<rparr> 3 [1, 1, 0]
     = (2, \<lparr>storage = [0, 1, 0], vsize = 2\<rparr>, [1, 1, 0])"
proof -
  have h1: "vsize \<lparr>storage = [1, 1, 0], vsize = 3\<rparr> \<le> length (storage \<lparr>storage = [1, 1, 0 :: nat], vsize = 3\<rparr>)"
    by simp
  have h2: "\<forall>c\<in>set (take (vsize \<lparr>storage = [1, 1, 0], vsize = 3\<rparr>) (storage \<lparr>storage = [1, 1, 0 :: nat], vsize = 3\<rparr>)). c < 3"
    by simp
  have h3: "3 \<le> length [0, 1, 2 :: nat]" by simp
  have h4: "\<forall>l\<in>set (take 3 [0, 1, 2 :: nat]). l < vsize \<lparr>storage = [1, 1, 0 :: nat], vsize = 3\<rparr>"
    by simp
  have v: "renumber_clusters 3 \<lparr>storage = [1, 1, 0], vsize = 3\<rparr> 3 [0, 1, 2]
     = (2, \<lparr>storage = [1, 1, 0], vsize = 2\<rparr>, [1, 1, 0])"
    by code_simp
  have o: "overwrite_prefix [0..<2] [1, 1, 0] = [0, 1, 0 :: nat]"
    by code_simp
  have e: "\<lparr>storage = [1, 1, 0], vsize = 2\<rparr>
             \<lparr>storage := overwrite_prefix [0..<vsize \<lparr>storage = [1, 1, 0 :: nat], vsize = 2\<rparr>]
                 (storage \<lparr>storage = [1, 1, 0 :: nat], vsize = 2\<rparr>)\<rparr>
           = \<lparr>storage = [0, 1, 0], vsize = 2\<rparr>"
    using o by simp
  from renumber_clusters_after_reset_noop [OF h1 h2 h3 h4]
  have "renumber_clusters 3 \<lparr>storage = [0, 1, 0], vsize = 2\<rparr> 3 [1, 1, 0]
     = (2, \<lparr>storage = [0, 1, 0], vsize = 2\<rparr>, [1, 1, 0])"
    unfolding v prod.case e .
  with h1 v o show ?thesis by blast
qed

section \<open>The contraction\<close>

lemma sum_list_insort_key:
  "sum_list (map g (insort_key f x xs)) = (g x :: real) + sum_list (map g xs)"
  by (induction xs) simp_all

lemma sum_list_sort_key:
  "sum_list (map g (sort_key f xs)) = (sum_list (map g xs) :: real)"
  by (induction xs) (simp_all add: sum_list_insort_key)

lemma sum_list_reduce_by_key:
  "sum_list (map snd (reduce_by_key xs)) = sum_list (map snd xs)"
  by (induction xs rule: reduce_by_key.induct) simp_all

lemma length_reduce_by_key: "length (reduce_by_key xs) \<le> length xs"
  by (induction xs rule: reduce_by_key.induct) (auto intro: le_SucI)

lemma generate_superverticies_graph_total:
  assumes "number_of_edges g \<le> length (edge_data g)"
  shows "sum_list (take (number_of_edges (generate_superverticies_graph g k C))
                      (edge_data (generate_superverticies_graph g k C)))
           = sum_list (take (number_of_edges g) (edge_data g))"
    and "number_of_vertices (generate_superverticies_graph g k C) = k"
    and "number_of_edges (generate_superverticies_graph g k C) \<le> number_of_edges g"
proof -
  let ?m = "number_of_edges g"
  let ?src = "get_source_indices g (replicate ?m 0)"
  let ?ren = "map (\<lambda>e. (C ! (?src ! e), C ! (indices g ! e), edge_data g ! e)) [0..<?m]"
  let ?sorted = "sort_key (\<lambda>(s, d, w). s) (sort_key (\<lambda>(s, d, w). d) ?ren)"
  let ?red = "reduce_by_key (map (\<lambda>(s, d, w). ((s, d), w)) ?sorted)"
  have nv: "number_of_vertices (generate_superverticies_graph g k C) = k"
    by (simp add: generate_superverticies_graph_def Let_def)
  have ne: "number_of_edges (generate_superverticies_graph g k C) = length ?red"
    by (simp add: generate_superverticies_graph_def Let_def)
  have ed: "edge_data (generate_superverticies_graph g k C)
              = overwrite_prefix (map (\<lambda>((s, d), w). w) ?red) (edge_data g)"
    by (simp add: generate_superverticies_graph_def Let_def)
  have "take (length ?red) (overwrite_prefix (map (\<lambda>((s, d), w). w) ?red) (edge_data g))
          = map (\<lambda>((s, d), w). w) ?red"
    by (simp add: overwrite_prefix_def)
  then have "sum_list (take (number_of_edges (generate_superverticies_graph g k C))
                      (edge_data (generate_superverticies_graph g k C)))
        = sum_list (map (\<lambda>((s, d), w). w) ?red)"
    unfolding ne ed by simp
  also have "(\<lambda>((s :: nat, d :: nat), w :: real). w) = snd" by auto
  also have "sum_list (map snd ?red) = sum_list (map snd (map (\<lambda>(s, d, w). ((s, d), w)) ?sorted))"
    by (rule sum_list_reduce_by_key)
  also have "\<dots> = sum_list (map (\<lambda>(s, d, w). w) ?sorted)"
    by (rule arg_cong [where f = sum_list]) (simp add: case_prod_beta)
  also have "\<dots> = sum_list (map (\<lambda>(s, d, w). w) ?ren)"
    by (simp only: sum_list_sort_key)
  also have "\<dots> = sum_list (map (\<lambda>e. edge_data g ! e) [0..<?m])"
    by (simp add: comp_def)
  also have "\<dots> = sum_list (take ?m (edge_data g))"
    using assms by (simp add: map_nth_prefix)
  finally show "sum_list (take (number_of_edges (generate_superverticies_graph g k C))
                      (edge_data (generate_superverticies_graph g k C)))
           = sum_list (take (number_of_edges g) (edge_data g))" .
  show "number_of_vertices (generate_superverticies_graph g k C) = k" by (rule nv)
  have "length ?red \<le> length (map (\<lambda>(s, d, w). ((s, d), w)) ?sorted)"
    by (rule length_reduce_by_key)
  then show "number_of_edges (generate_superverticies_graph g k C) \<le> number_of_edges g"
    unfolding ne by simp
qed

section \<open>Claims about the contraction\<close>

text \<open>
  Claim C7. After \<^verbatim>\<open>generate_superverticies_graph\<close> has contracted a graph of the current
  level under a clustering into \<open>k\<close> clusters, the sum of the edge weights of the contracted
  graph (self-loops from edges inside a cluster included) equals the sum of the edge weights
  before, the contracted graph has \<open>k\<close> vertices, and it has at most as many edges as
  before.
\<close>

theorem contraction_preserves_total_weight:
  assumes "valid_graph g" and "clusters_below (number_of_vertices g) k C"
  shows "sum_list (take (number_of_edges (generate_superverticies_graph g k C))
                      (edge_data (generate_superverticies_graph g k C)))
           = sum_list (take (number_of_edges g) (edge_data g)) \<and>
         number_of_vertices (generate_superverticies_graph g k C) = k \<and>
         number_of_edges (generate_superverticies_graph g k C) \<le> number_of_edges g"
proof -
  from assms(1) have "number_of_edges g \<le> length (edge_data g)"
    by (simp add: valid_graph_def)
  from generate_superverticies_graph_total [OF this] show ?thesis by blast
qed

theorem contraction_preserves_total_weight_witness:
  "valid_graph two_triangles \<and> clusters_below (number_of_vertices two_triangles) 2 [0, 0, 0, 1, 1, 1] \<and>
   sum_list (take (number_of_edges (generate_superverticies_graph two_triangles 2 [0, 0, 0, 1, 1, 1]))
                (edge_data (generate_superverticies_graph two_triangles 2 [0, 0, 0, 1, 1, 1])))
     = sum_list (take (number_of_edges two_triangles) (edge_data two_triangles)) \<and>
   number_of_vertices (generate_superverticies_graph two_triangles 2 [0, 0, 0, 1, 1, 1]) = 2 \<and>
   number_of_edges (generate_superverticies_graph two_triangles 2 [0, 0, 0, 1, 1, 1])
     \<le> number_of_edges two_triangles \<and>
   take 2 (edge_data (generate_superverticies_graph two_triangles 2 [0, 0, 0, 1, 1, 1])) = [6, 6] \<and>
   number_of_edges (generate_superverticies_graph two_triangles 2 [0, 0, 0, 1, 1, 1]) = 2"
proof -
  have h1: "valid_graph two_triangles" by code_simp
  have h2: "clusters_below (number_of_vertices two_triangles) 2 [0, 0, 0, 1, 1, 1]" by code_simp
  have v: "take 2 (edge_data (generate_superverticies_graph two_triangles 2 [0, 0, 0, 1, 1, 1])) = [6, 6]"
    "number_of_edges (generate_superverticies_graph two_triangles 2 [0, 0, 0, 1, 1, 1]) = 2"
    by code_simp+
  from contraction_preserves_total_weight [OF h1 h2] h1 h2 v show ?thesis by blast
qed

section \<open>Invariants of the sweep\<close>

lemma list_all_upt: "list_all P [0..<n] \<longleftrightarrow> (\<forall>i<n. P i)"
  by (auto simp: list_all_iff)

lemma valid_graph_offsets_mono:
  assumes "valid_graph g" and "i \<le> j" and "j \<le> number_of_vertices g"
  shows "offsets g ! i \<le> offsets g ! j"
  using assms(2,3)
proof (induction j)
  case 0
  then show ?case by simp
next
  case (Suc j)
  from assms(1) Suc.prems(2) have step: "offsets g ! j \<le> offsets g ! (j + 1)"
    by (simp add: valid_graph_def list_all_upt)
  show ?case
  proof (cases "i = Suc j")
    case True
    then show ?thesis by simp
  next
    case False
    with Suc have "offsets g ! i \<le> offsets g ! j" by simp
    with step show ?thesis by simp
  qed
qed

lemma valid_graph_neighbor:
  assumes "valid_graph g" and "v < number_of_vertices g"
    and "loc \<in> {offsets g ! v ..< offsets g ! (v + 1)}"
  shows "loc < number_of_edges g" and "indices g ! loc < number_of_vertices g"
proof -
  from valid_graph_offsets_mono [OF assms(1), of "v + 1" "number_of_vertices g"] assms(1,2)
  have "offsets g ! (v + 1) \<le> number_of_edges g" by (simp add: valid_graph_def)
  with assms(3) show "loc < number_of_edges g" by simp
  with assms(1) show "indices g ! loc < number_of_vertices g"
    by (simp add: valid_graph_def list_all_upt)
qed

lemma sum_list_update_real:
  "i < length xs \<Longrightarrow> sum_list (xs[i := x]) = sum_list xs - xs ! i + (x :: real)"
proof (induction xs arbitrary: i)
  case Nil
  then show ?case by simp
next
  case (Cons a xs)
  then show ?case by (cases i) simp_all
qed

lemma sum_list_take_update:
  assumes "i < n" and "n \<le> length (xs :: real list)"
  shows "sum_list (take n (xs[i := x])) = sum_list (take n xs) - xs ! i + x"
proof -
  have "take n (xs[i := x]) = (take n xs)[i := x]" by (rule take_update_swap)
  moreover have "i < length (take n xs)" using assms by simp
  ultimately show ?thesis using assms(1) by (simp add: sum_list_update_real)
qed

lemma update_assignment_ok:
  assumes "valid_graph g" and "v < number_of_vertices g"
    and "sweep_state_ok (number_of_vertices g) (S, C)"
  shows "sweep_state_ok (number_of_vertices g) (update_assignment m2 g k v (S, C))"
    and "sum_list (take (number_of_vertices g) (fst (update_assignment m2 g k v (S, C))))
           = sum_list (take (number_of_vertices g) S)"
proof -
  let ?n = "number_of_vertices g"
  let ?R = "{offsets g ! v ..< offsets g ! (v + 1)}"
  from assms(3) have len: "?n \<le> length S" "?n \<le> length C" and C: "\<And>u. u < ?n \<Longrightarrow> C ! u < ?n"
    by (simp_all add: sweep_state_ok_def clusters_below_def list_all_upt)
  have both: "sweep_state_ok ?n (update_assignment m2 g k v (S, C)) \<and>
     sum_list (take ?n (fst (update_assignment m2 g k v (S, C)))) = sum_list (take ?n S)"
  proof (cases "\<exists>l\<in>?R. C ! v \<noteq> C ! (indices g ! l) \<and> 0 < delta_mod m2 g k S C v l")
    case False
    then have "\<forall>l\<in>?R. C ! v \<noteq> C ! (indices g ! l) \<longrightarrow> delta_mod m2 g k S C v l \<le> 0"
      by (meson not_less)
    then have "update_assignment m2 g k v (S, C) = (S, C)" by (rule update_assignment_stay)
    with assms(3) show ?thesis by simp
  next
    case True
    from assms(2) len have vC: "v < length C" by simp
    from update_assignment_move [OF True vC]
    obtain loc where loc: "loc \<in> ?R" "C ! v \<noteq> C ! (indices g ! loc)"
      and upd: "update_assignment m2 g k v (S, C) =
             ((S[C ! v := S ! (C ! v) - k ! v])
                 [C ! (indices g ! loc) :=
                    (S[C ! v := S ! (C ! v) - k ! v]) ! (C ! (indices g ! loc)) + k ! v],
              C[v := C ! (indices g ! loc)])"
      by blast
    define old where "old = C ! v"
    define new where "new = C ! (indices g ! loc)"
    from valid_graph_neighbor [OF assms(1,2) loc(1)] have "indices g ! loc < ?n" by simp
    then have new: "new < ?n" unfolding new_def by (rule C)
    have old: "old < ?n" unfolding old_def using assms(2) by (rule C)
    have ne: "old \<noteq> new" using loc(2) by (simp add: old_def new_def)
    let ?S1 = "S[old := S ! old - k ! v]"
    have upd': "update_assignment m2 g k v (S, C) = (?S1[new := ?S1 ! new + k ! v], C[v := new])"
      using upd by (simp add: old_def new_def)
    have S1new: "?S1 ! new = S ! new" using ne by simp
    have "sum_list (take ?n (?S1[new := ?S1 ! new + k ! v]))
        = sum_list (take ?n ?S1) - ?S1 ! new + (?S1 ! new + k ! v)"
      using new len(1) by (simp add: sum_list_take_update)
    also have "sum_list (take ?n ?S1) = sum_list (take ?n S) - S ! old + (S ! old - k ! v)"
      using old len(1) by (simp add: sum_list_take_update)
    finally have sum: "sum_list (take ?n (?S1[new := ?S1 ! new + k ! v])) = sum_list (take ?n S)"
      by simp
    have "\<And>u. u < ?n \<Longrightarrow> C[v := new] ! u < ?n"
      using C new vC by (simp add: nth_list_update)
    then have "sweep_state_ok ?n (?S1[new := ?S1 ! new + k ! v], C[v := new])"
      using len by (simp add: sweep_state_ok_def clusters_below_def list_all_upt)
    with sum show ?thesis unfolding upd' by simp
  qed
  from both show "sweep_state_ok ?n (update_assignment m2 g k v (S, C))" by (rule conjunct1)
  from both show "sum_list (take ?n (fst (update_assignment m2 g k v (S, C)))) = sum_list (take ?n S)"
    by (rule conjunct2)
qed

lemma sweep_prefix_Suc:
  "sweep_prefix m2 g k (Suc j) st = update_assignment m2 g k j (sweep_prefix m2 g k j st)"
  by (simp add: sweep_prefix_def)

lemma sweep_prefix_ok:
  assumes "valid_graph g" and "sweep_state_ok (number_of_vertices g) st"
    and "j \<le> number_of_vertices g"
  shows "sweep_state_ok (number_of_vertices g) (sweep_prefix m2 g k j st) \<and>
         sum_list (take (number_of_vertices g) (fst (sweep_prefix m2 g k j st)))
           = sum_list (take (number_of_vertices g) (fst st))"
  using assms(3)
proof (induction j)
  case 0
  with assms(2) show ?case by (simp add: sweep_prefix_def)
next
  case (Suc j)
  then have IH: "sweep_state_ok (number_of_vertices g) (sweep_prefix m2 g k j st)"
      "sum_list (take (number_of_vertices g) (fst (sweep_prefix m2 g k j st)))
           = sum_list (take (number_of_vertices g) (fst st))"
    and j: "j < number_of_vertices g"
    by simp_all
  obtain S C where sc: "sweep_prefix m2 g k j st = (S, C)" by (cases "sweep_prefix m2 g k j st")
  from IH(1) have okj: "sweep_state_ok (number_of_vertices g) (S, C)" unfolding sc .
  have "sweep_state_ok (number_of_vertices g) (update_assignment m2 g k j (S, C))"
    by (rule update_assignment_ok(1) [OF assms(1) j okj])
  moreover have "sum_list (take (number_of_vertices g) (fst (update_assignment m2 g k j (S, C))))
           = sum_list (take (number_of_vertices g) S)"
    by (rule update_assignment_ok(2) [OF assms(1) j okj])
  ultimately show ?case using IH(2) unfolding sweep_prefix_Suc sc by simp
qed

lemma sweep_is_prefix:
  "update_each_assignment_by_delta_modularity m2 g k st
     = sweep_prefix m2 g k (number_of_vertices g) st"
  by (simp add: update_each_assignment_by_delta_modularity_def)

lemma sweeps_ok:
  assumes "valid_graph g" and "sweep_state_ok (number_of_vertices g) st"
  shows "sweep_state_ok (number_of_vertices g)
           ((update_each_assignment_by_delta_modularity m2 g k ^^ i) st) \<and>
         sum_list (take (number_of_vertices g)
            (fst ((update_each_assignment_by_delta_modularity m2 g k ^^ i) st)))
           = sum_list (take (number_of_vertices g) (fst st))"
proof (induction i)
  case 0
  with assms(2) show ?case by simp
next
  case (Suc i)
  let ?st = "(update_each_assignment_by_delta_modularity m2 g k ^^ i) st"
  have "sweep_state_ok (number_of_vertices g) (sweep_prefix m2 g k (number_of_vertices g) ?st) \<and>
         sum_list (take (number_of_vertices g) (fst (sweep_prefix m2 g k (number_of_vertices g) ?st)))
           = sum_list (take (number_of_vertices g) (fst ?st))"
    by (rule sweep_prefix_ok [OF assms(1) conjunct1 [OF Suc] le_refl])
  moreover have "(update_each_assignment_by_delta_modularity m2 g k ^^ Suc i) st
      = sweep_prefix m2 g k (number_of_vertices g) ?st"
    by (simp only: funpow.simps o_apply sweep_is_prefix)
  ultimately show ?case using Suc by simp
qed

text \<open>
  Claim C10. At every point of a sweep (after any number of complete sweeps of the inner
  loop and any number of vertices of the current sweep) the sum of the cluster weights \<open>\<Sigma>\<close>
  over all clusters equals the sum of the vertex weights \<open>k\<close> over all vertices of the
  current level: the driver starts the inner loop with \<open>\<Sigma>\<close> a copy of \<open>k\<close>, and every
  accepted move subtracts \<open>k\<^sub>v\<close> from one cluster and adds it to another.
\<close>

theorem cluster_weight_total_invariant:
  assumes "valid_graph g"
    and "number_of_vertices g \<le> length k"
    and "clusters_below (number_of_vertices g) (number_of_vertices g) C"
    and "j \<le> number_of_vertices g"
  shows "sum_list (take (number_of_vertices g)
           (fst (sweep_prefix m2 g k j
                  ((update_each_assignment_by_delta_modularity m2 g k ^^ i) (k, C)))))
         = sum_list (take (number_of_vertices g) k)"
proof -
  have ok: "sweep_state_ok (number_of_vertices g) (k, C)"
    using assms(2,3) by (simp add: sweep_state_ok_def)
  have "sweep_state_ok (number_of_vertices g)
           ((update_each_assignment_by_delta_modularity m2 g k ^^ i) (k, C)) \<and>
         sum_list (take (number_of_vertices g)
            (fst ((update_each_assignment_by_delta_modularity m2 g k ^^ i) (k, C))))
           = sum_list (take (number_of_vertices g) (fst (k, C)))"
    by (rule sweeps_ok [OF assms(1) ok])
  then have 1: "sweep_state_ok (number_of_vertices g)
           ((update_each_assignment_by_delta_modularity m2 g k ^^ i) (k, C))"
    and 2: "sum_list (take (number_of_vertices g)
            (fst ((update_each_assignment_by_delta_modularity m2 g k ^^ i) (k, C))))
           = sum_list (take (number_of_vertices g) k)"
    by simp_all
  have "sweep_state_ok (number_of_vertices g)
          (sweep_prefix m2 g k j ((update_each_assignment_by_delta_modularity m2 g k ^^ i) (k, C))) \<and>
        sum_list (take (number_of_vertices g)
          (fst (sweep_prefix m2 g k j ((update_each_assignment_by_delta_modularity m2 g k ^^ i) (k, C)))))
         = sum_list (take (number_of_vertices g)
             (fst ((update_each_assignment_by_delta_modularity m2 g k ^^ i) (k, C))))"
    by (rule sweep_prefix_ok [OF assms(1) 1 assms(4)])
  with 2 show ?thesis by simp
qed

theorem cluster_weight_total_invariant_witness:
  "valid_graph star_graph \<and>
   number_of_vertices star_graph \<le> length star_vertex_weights \<and>
   clusters_below (number_of_vertices star_graph) (number_of_vertices star_graph) star_identity \<and>
   2 \<le> number_of_vertices star_graph \<and>
   sum_list (take (number_of_vertices star_graph)
      (fst (sweep_prefix 10 star_graph star_vertex_weights 2
              ((update_each_assignment_by_delta_modularity 10 star_graph star_vertex_weights ^^ 1)
                 (star_vertex_weights, star_identity)))))
     = sum_list (take (number_of_vertices star_graph) star_vertex_weights) \<and>
   sum_list (take (number_of_vertices star_graph) star_vertex_weights) = 10"
proof -
  have h1: "valid_graph star_graph" by code_simp
  have h2: "number_of_vertices star_graph \<le> length star_vertex_weights" by code_simp
  have h3: "clusters_below (number_of_vertices star_graph) (number_of_vertices star_graph) star_identity"
    by code_simp
  have h4: "2 \<le> number_of_vertices star_graph" by code_simp
  have v: "sum_list (take (number_of_vertices star_graph) star_vertex_weights) = 10" by code_simp
  from cluster_weight_total_invariant [OF h1 h2 h3 h4, of 10 1] h1 h2 h3 h4 v
  show ?thesis by blast
qed

section \<open>The driver on a single vertex\<close>

lemma valid_graph_louvain_init:
  assumes "valid_graph g"
  shows "valid_graph (current_graph (louvain_init g))"
    and "number_of_vertices (current_graph (louvain_init g)) = number_of_vertices g"
  using assms
  by (simp_all add: valid_graph_def louvain_init_def list_all_upt)

lemma single_vertex_sweep:
  assumes "valid_graph g" and "number_of_vertices g = 1"
  shows "update_each_assignment_by_delta_modularity m2 g k (S, [0]) = (S, [0])"
proof -
  have "\<forall>l\<in>{offsets g ! 0 ..< offsets g ! (0 + 1)}.
          [0] ! 0 \<noteq> [0 :: nat] ! (indices g ! l) \<longrightarrow> delta_mod m2 g k S [0] 0 l \<le> 0"
  proof (intro ballI impI)
    fix l assume l: "l \<in> {offsets g ! 0 ..< offsets g ! (0 + 1)}"
      and ne: "[0] ! 0 \<noteq> [0 :: nat] ! (indices g ! l)"
    from valid_graph_neighbor(2) [OF assms(1) _ l] assms(2) have "indices g ! l = 0" by simp
    with ne show "delta_mod m2 g k S [0] 0 l \<le> 0" by simp
  qed
  then have "update_assignment m2 g k 0 (S, [0]) = (S, [0])"
    by (rule update_assignment_stay)
  then show ?thesis
    by (simp add: sweep_is_prefix assms(2) sweep_prefix_def)
qed

lemma single_vertex_inner_loop:
  assumes "valid_graph g" and "number_of_vertices g = 1"
  shows "update_clustering_by_delta_modularity m2 g k S [0] = Some (modularity m2 g [0] k S, S, [0])"
proof -
  let ?Q = "modularity m2 g [0] k S"
  have 2: "delta_modularity_loop m2 g k ?Q ?Q (S, [0]) = Some (?Q, S, [0])"
    by (subst delta_modularity_loop.simps) simp
  have "delta_modularity_loop m2 g k ?Q (?Q - 1) (S, [0])
      = delta_modularity_loop m2 g k ?Q ?Q (S, [0])"
    by (subst delta_modularity_loop.simps)
       (simp add: single_vertex_sweep [OF assms] Let_def)
  with 2 show ?thesis
    by (simp add: update_clustering_by_delta_modularity_def Let_def)
qed

lemma single_vertex_level:
  assumes "valid_graph g" and "number_of_vertices g = 1"
  shows "louvain_level m2 n0 (louvain_init g)
     = Some (Inl ((louvain_init g)
          \<lparr>vertex_weights_v := compute_vertex_sums (current_graph (louvain_init g)) [0]\<rparr>))"
proof -
  let ?g0 = "current_graph (louvain_init g)"
  note v = valid_graph_louvain_init [OF assms(1)]
  have n0: "number_of_vertices ?g0 = 1" using v(2) assms(2) by simp
  have cl: "storage (cluster_v (louvain_init g)) = [0]" "vertex_weights_v (louvain_init g) = [0]"
    using assms(2) by (simp_all add: louvain_init_def)
  have inner: "update_clustering_by_delta_modularity m2 ?g0 k k [0]
      = Some (modularity m2 ?g0 [0] k k, k, [0])" for k
    by (rule single_vertex_inner_loop [OF v(1) n0])
  show ?thesis
    unfolding louvain_level_def cl Let_def inner
    by (simp add: n0) (simp add: louvain_init_def assms(2))
qed

section \<open>The out-parameter of the level count\<close>

lemma louvain_level_level_out:
  assumes "louvain_level m2 n0 st = Some r"
  shows "level_out (case r of Inl s \<Rightarrow> s | Inr s \<Rightarrow> s) = level_out st"
  using assms
  by (auto simp: louvain_level_def Let_def split: option.splits prod.splits if_splits)

lemma louvain_loop_level_out:
  assumes "louvain_loop m2 n0 it st = Some y"
  shows "level_out (fst y) = level_out st \<and> it < snd y"
proof (rule louvain_loop.raw_induct
         [where P = "\<lambda>m2 n0 it st y. level_out (fst y) = level_out st \<and> it < snd y", OF _ assms])
  fix loop :: "real \<Rightarrow> nat \<Rightarrow> nat \<Rightarrow> louvain_state \<Rightarrow> (louvain_state \<times> nat) option"
  fix m2 n0 it st y
  assume IH: "\<And>m2 n0 it st y. loop m2 n0 it st = Some y
                \<Longrightarrow> level_out (fst y) = level_out st \<and> it < snd y"
    and eq: "(case louvain_level m2 n0 st of
                None \<Rightarrow> None
              | Some (Inl st') \<Rightarrow> Some (st', it + 1)
              | Some (Inr st') \<Rightarrow> loop m2 n0 (it + 1) st') = Some y"
  show "level_out (fst y) = level_out st \<and> it < snd y"
  proof (cases "louvain_level m2 n0 st")
    case None
    with eq show ?thesis by simp
  next
    case (Some r)
    from louvain_level_level_out [OF Some]
    have lo: "level_out (case r of Inl s \<Rightarrow> s | Inr s \<Rightarrow> s) = level_out st" .
    show ?thesis
    proof (cases r)
      case (Inl s)
      with Some eq lo show ?thesis by auto
    next
      case (Inr s)
      with Some eq have "loop m2 n0 (it + 1) s = Some y" by simp
      from IH [OF this] Inr lo show ?thesis by simp
    qed
  qed
qed

section \<open>Claims about the driver\<close>

text \<open>
  Claim C1 (what the code does, against the claim). Whenever \<^verbatim>\<open>louvain\<close> returns, the
  value stored through \<^verbatim>\<open>num_level\<close> is 0, while the loop has made at least one turn: the
  source assigns \<^verbatim>\<open>*num_level = 0\<close> before the loop and never again. On the graph of two
  vertices joined by one edge the loop makes two turns, the first of which merges the two
  vertices and contracts the graph, and 0 is returned.
\<close>

theorem louvain_num_level_zero:
  assumes "louvain_run g max_iter = Some (r, iterations)"
  shows "num_level r = 0 \<and> 0 < iterations"
proof -
  from assms obtain st where
    l: "louvain_loop (fold (\<lambda>w acc. acc + w) (take (number_of_edges g) (edge_data g)) 0)
          (number_of_vertices g) 0 (louvain_init g) = Some (st, iterations)"
    and r: "r = \<lparr>final_modularity = best_modularity st, num_level = level_out st, cluster_vec = labels st\<rparr>"
    by (auto simp: louvain_run_def Let_def split: option.splits prod.splits)
  from louvain_loop_level_out [OF l] have "level_out st = level_out (louvain_init g)" "0 < iterations"
    by simp_all
  then show ?thesis by (simp add: r louvain_init_def)
qed

theorem louvain_num_level_zero_witness:
  "louvain_run two_vertex_graph 100
     = Some (\<lparr>final_modularity = 0, num_level = 0, cluster_vec = [0, 0]\<rparr>, 2) \<and>
   num_level \<lparr>final_modularity = 0, num_level = 0, cluster_vec = [0, 0]\<rparr> = 0 \<and>
   (0 :: nat) < 2"
proof -
  have v: "louvain_run two_vertex_graph 100
     = Some (\<lparr>final_modularity = 0, num_level = 0, cluster_vec = [0, 0]\<rparr>, 2)"
    by code_simp
  from louvain_num_level_zero [OF v] v show ?thesis by blast
qed

text \<open>
  Claim C9 (as the specification states it, refuted). On the graph of one vertex with a
  self-loop \<^verbatim>\<open>louvain\<close> returns \<open>levels = 0\<close> and \<open>L = [0]\<close>, but the modularity it
  returns is \<open>-1\<close>, not 0.
\<close>

theorem louvain_single_vertex_not_zero:
  "louvain one_vertex_graph 100 = Some \<lparr>final_modularity = - 1, num_level = 0, cluster_vec = [0]\<rparr> \<and>
   final_modularity \<lparr>final_modularity = - 1, num_level = 0, cluster_vec = [0]\<rparr> \<noteq> 0"
  by code_simp

text \<open>
  Claim C9 (amended). For every well-formed input graph with exactly one vertex and a total
  edge weight other than 0, \<^verbatim>\<open>louvain\<close> returns \<open>levels = 0\<close>, \<open>L = [0]\<close> and
  \<open>best_modularity = -1\<close>, the value the variable is initialised with: no level is
  completed, so it is never assigned.
\<close>

theorem louvain_single_vertex:
  assumes "valid_graph g" and "number_of_vertices g = 1"
    and "sum_list (take (number_of_edges g) (edge_data g)) \<noteq> 0"
  shows "louvain g max_iter = Some \<lparr>final_modularity = - 1, num_level = 0, cluster_vec = [0]\<rparr>"
proof -
  have "louvain_loop m2 1 0 (louvain_init g)
     = Some ((louvain_init g)
          \<lparr>vertex_weights_v := compute_vertex_sums (current_graph (louvain_init g)) [0]\<rparr>, 1)" for m2
    by (subst louvain_loop.simps) (simp add: single_vertex_level [OF assms(1,2)])
  then show ?thesis
    by (simp add: louvain_def louvain_run_def assms(2) Let_def) (simp add: louvain_init_def assms(2))
qed

theorem louvain_single_vertex_witness:
  "valid_graph one_vertex_graph \<and> number_of_vertices one_vertex_graph = 1 \<and>
   sum_list (take (number_of_edges one_vertex_graph) (edge_data one_vertex_graph)) \<noteq> 0 \<and>
   louvain one_vertex_graph 7 = Some \<lparr>final_modularity = - 1, num_level = 0, cluster_vec = [0]\<rparr>"
proof -
  have h1: "valid_graph one_vertex_graph" by code_simp
  have h2: "number_of_vertices one_vertex_graph = 1" by (simp add: one_vertex_graph_def)
  have h3: "sum_list (take (number_of_edges one_vertex_graph) (edge_data one_vertex_graph)) \<noteq> 0"
    by (simp add: one_vertex_graph_def)
  from louvain_single_vertex [OF h1 h2 h3, of 7] h1 h2 h3 show ?thesis by blast
qed

section \<open>Sums over the vertices when one vertex changes its cluster\<close>








section \<open>Modularity as a sum over pairs of vertices\<close>

lemma sum_list_filter_upt:
  "sum_list (map f (filter P [a..<b])) = (\<Sum>e\<in>{a..<b}. if P e then f e else (0 :: real))"
  by (simp add: sum_list_map_filter' interv_sum_list_conv_sum_set_nat)

lemma edge_weight_sum:
  "edge_weight g u v
     = (\<Sum>e\<in>{offsets g ! u ..< offsets g ! (u + 1)}. if indices g ! e = v then edge_data g ! e else 0)"
  by (simp add: edge_weight_def sum_list_filter_upt)






lemma cluster_sums_okI:
  assumes "\<And>c. c < n \<Longrightarrow> S ! c = (\<Sum>v<n. if C ! v = c then k ! v else 0)"
  shows "cluster_sums_ok n k (S, C)"
  using assms by (simp add: cluster_sums_ok_def list_all_upt sum_list_filter_upt atLeast0LessThan)

lemma symmetric_graphD:
  assumes "symmetric_graph g" and "u < number_of_vertices g" and "v < number_of_vertices g"
  shows "edge_weight g u v = edge_weight g v u"
  using assms by (simp add: symmetric_graph_def list_all_upt)

section \<open>The gain of a move\<close>





lemma delta_modularity_loop_turn:
  assumes "reported_Q m2 g k st i > cur_Q + 1 / 10000"
  shows "delta_modularity_loop m2 g k (reported_Q m2 g k st i) cur_Q
           ((update_each_assignment_by_delta_modularity m2 g k ^^ i) st)
       = delta_modularity_loop m2 g k (reported_Q m2 g k st (Suc i)) (reported_Q m2 g k st i)
           ((update_each_assignment_by_delta_modularity m2 g k ^^ Suc i) st)"
  using assms
  by (subst delta_modularity_loop.simps) (simp add: reported_Q_def Let_def)

text \<open>The state in which the driver starts the inner loop of a level: the cluster weights
  are a copy of the vertex weights and the clustering is the identity.\<close>

lemma level_start_ok:
  assumes "n \<le> length k" and "n \<le> length C" and "take n C = [0..<n]"
  shows "sweep_state_ok n (k, C)" and "cluster_sums_ok n k (k, C)"
proof -
  have Cv: "C ! v = v" if "v < n" for v
    using that assms(2,3) by (metis add_0 nth_take nth_upt)
  show "sweep_state_ok n (k, C)"
    using assms(1,2) Cv by (simp add: sweep_state_ok_def clusters_below_def list_all_upt)
  show "cluster_sums_ok n k (k, C)"
  proof (rule cluster_sums_okI)
    fix c assume c: "c < n"
    have "(\<Sum>v<n. if C ! v = c then k ! v else 0) = (\<Sum>v<n. if v = c then k ! v else 0)"
      by (rule sum.cong) (simp_all add: Cv)
    also have "\<dots> = k ! c" using c by (simp add: sum.delta)
    finally show "k ! c = (\<Sum>v<n. if C ! v = c then k ! v else 0)" by simp
  qed
qed

text \<open>The first level of a run on a well-formed symmetric graph: the copy of the graph is
  well-formed and symmetric, and the state in which the inner loop starts has cluster
  weights that agree with its clustering.\<close>

lemma length_compute_vertex_sums [simp]:
  "length (compute_vertex_sums g out) = length out"
proof -
  have "length (fold (\<lambda>src out. out[src := f src]) xs out) = length out" for f :: "nat \<Rightarrow> real" and xs
    by (induction xs arbitrary: out) simp_all
  then show ?thesis
    by (simp add: compute_vertex_sums_def compute_vertex_sums_kernel_def)
qed

lemma edge_weight_louvain_init:
  assumes "valid_graph g" and "u < number_of_vertices g"
  shows "edge_weight (current_graph (louvain_init g)) u v = edge_weight g u v"
proof -
  let ?g0 = "current_graph (louvain_init g)"
  from assms have off: "offsets ?g0 ! u = offsets g ! u" "offsets ?g0 ! (u + 1) = offsets g ! (u + 1)"
    by (simp_all add: louvain_init_def valid_graph_def)
  have "(if indices ?g0 ! e = v then edge_data ?g0 ! e else 0)
      = (if indices g ! e = v then edge_data g ! e else 0)"
    if "e \<in> {offsets g ! u ..< offsets g ! (u + 1)}" for e
  proof -
    from valid_graph_neighbor(1) [OF assms that] have "e < number_of_edges g" .
    then show ?thesis by (simp add: louvain_init_def)
  qed
  then show ?thesis
    unfolding edge_weight_sum off by (intro sum.cong refl)
qed

lemma first_level_ok:
  assumes "valid_graph g" and "symmetric_graph g"
  shows "valid_graph (current_graph (louvain_init g))"
    and "symmetric_graph (current_graph (louvain_init g))"
    and "sweep_state_ok (number_of_vertices (current_graph (louvain_init g)))
           (compute_vertex_sums (current_graph (louvain_init g)) (vertex_weights_v (louvain_init g)),
            storage (cluster_v (louvain_init g)))"
    and "cluster_sums_ok (number_of_vertices (current_graph (louvain_init g)))
           (compute_vertex_sums (current_graph (louvain_init g)) (vertex_weights_v (louvain_init g)))
           (compute_vertex_sums (current_graph (louvain_init g)) (vertex_weights_v (louvain_init g)),
            storage (cluster_v (louvain_init g)))"
proof -
  let ?g0 = "current_graph (louvain_init g)"
  let ?n = "number_of_vertices g"
  let ?k = "compute_vertex_sums ?g0 (vertex_weights_v (louvain_init g))"
  show v: "valid_graph ?g0" by (rule valid_graph_louvain_init(1) [OF assms(1)])
  have n: "number_of_vertices ?g0 = ?n" by (simp add: louvain_init_def)
  show "symmetric_graph ?g0"
    unfolding symmetric_graph_def n list_all_upt
    using symmetric_graphD [OF assms(2)]
    by (simp add: edge_weight_louvain_init [OF assms(1)])
  have len: "?n \<le> length (vertex_weights_v (louvain_init g))" by (simp add: louvain_init_def)
  have st: "storage (cluster_v (louvain_init g)) = [0..<?n]" by (simp add: louvain_init_def)
  show "sweep_state_ok (number_of_vertices ?g0) (?k, storage (cluster_v (louvain_init g)))"
    unfolding n st by (rule level_start_ok(1)) (simp_all add: len)
  show "cluster_sums_ok (number_of_vertices ?g0) ?k (?k, storage (cluster_v (louvain_init g)))"
    unfolding n st by (rule level_start_ok(2)) (simp_all add: len)
qed

section \<open>Claims about the inner loop\<close>



end
